theory Spec2Isabelle
  imports Complex_Main "HOL-Library.Log_Nat"
begin

section \<open>Text\<close>

text \<open>
  JavaScript strings are modelled as Isabelle strings: sequences of code units in the
  range 0..255 (the Latin-1 part of UTF-16). The character classes below are the
  ECMAScript ones restricted to that range.
\<close>

definition isDigit :: "char \<Rightarrow> bool" where
  \<comment> \<open>the class \<open>\d\<close>\<close>
  "isDigit c = (c \<in> set ''0123456789'')"

definition isSpace :: "char \<Rightarrow> bool" where
  \<comment> \<open>the class \<open>\s\<close>, which is also what \<open>trim\<close> and \<open>parseFloat\<close> strip:
      tab, line feed, vertical tab, form feed, carriage return, space, no-break space\<close>
  "isSpace c = (c \<in> set [CHR 0x09, CHR 0x0A, CHR 0x0B, CHR 0x0C, CHR 0x0D, CHR 0x20, CHR 0xA0])"

definition isDot :: "char \<Rightarrow> bool" where
  \<comment> \<open>the class \<open>.\<close>: anything but a line terminator\<close>
  "isDot c = (c \<notin> set [CHR 0x0A, CHR 0x0D])"

definition lowerChar :: "char \<Rightarrow> char" where
  \<comment> \<open>\<open>toLowerCase\<close> on one code unit: A-Z and the Latin-1 capitals move up by 32\<close>
  "lowerChar c =
     (let n = (of_char c :: nat)
      in if (65 \<le> n \<and> n \<le> 90) \<or> (192 \<le> n \<and> n \<le> 222 \<and> n \<noteq> 215)
         then char_of (n + 32) else c)"

definition canon :: "char \<Rightarrow> char" where
  \<comment> \<open>the canonical form a regular expression with flag \<open>i\<close> compares: the upper-case
      code unit where it exists in the range\<close>
  "canon c =
     (let n = (of_char c :: nat)
      in if (97 \<le> n \<and> n \<le> 122) \<or> (224 \<le> n \<and> n \<le> 254 \<and> n \<noteq> 247)
         then char_of (n - 32) else c)"

definition toLowerCase :: "string \<Rightarrow> string" where
  "toLowerCase s = map lowerChar s"

fun startsWith :: "string \<Rightarrow> string \<Rightarrow> bool" where
  "startsWith s [] = True"
| "startsWith [] (p # ps) = False"
| "startsWith (c # cs) (p # ps) = (c = p \<and> startsWith cs ps)"

fun str_includes :: "string \<Rightarrow> string \<Rightarrow> bool" where
  \<comment> \<open>\<open>s.includes(p)\<close>\<close>
  "str_includes [] p = (p = [])"
| "str_includes (c # cs) p = (startsWith (c # cs) p \<or> str_includes cs p)"

definition trim :: "string \<Rightarrow> string" where
  "trim s = rev (dropWhile isSpace (rev (dropWhile isSpace s)))"

fun replace :: "string \<Rightarrow> string \<Rightarrow> string \<Rightarrow> string" where
  \<comment> \<open>\<open>s.replace(p, r)\<close> with a string pattern: the first occurrence only\<close>
  "replace [] p r = (if p = [] then r else [])"
| "replace (c # cs) p r =
     (if startsWith (c # cs) p then r @ drop (length p) (c # cs) else c # replace cs p r)"


section \<open>Regular expressions\<close>

text \<open>
  The fragment of ECMAScript regular expressions the program uses: literal characters,
  character classes, greedy and lazy repetition of a class, an optional item,
  sequence, alternation, capturing groups and the anchors. \<open>Rep P lo greedy\<close> is a class
  repeated at least \<open>lo\<close> times.
\<close>

datatype rx =
    Eps
  | Chr char
  | Cls "char \<Rightarrow> bool"
  | Rep "char \<Rightarrow> bool" nat bool
  | Opt rx
  | Seq rx rx
  | Alt rx rx
  | Cap rx
  | Bol
  | Eol

type_synonym pos = "nat \<times> string"

text \<open>
  \<open>rx_run i r (k, s)\<close> matches \<open>r\<close> at index \<open>k\<close>, where \<open>s\<close> is the rest of the input from
  there. It returns every way to match, in the order a backtracking matcher tries them:
  the captured groups (numbered by their opening parenthesis) and the position after
  the match. \<open>i\<close> is the flag \<open>i\<close>.
\<close>

fun rx_run :: "bool \<Rightarrow> rx \<Rightarrow> pos \<Rightarrow> (string list \<times> pos) list" where
  "rx_run i Eps p = [([], p)]"
| "rx_run i (Chr c) (k, s) =
     (case s of [] \<Rightarrow> []
      | x # xs \<Rightarrow> if (if i then canon x = canon c else x = c) then [([], (Suc k, xs))] else [])"
| "rx_run i (Cls P) (k, s) =
     (case s of [] \<Rightarrow> [] | x # xs \<Rightarrow> if P x then [([], (Suc k, xs))] else [])"
| "rx_run i (Rep P lo greedy) (k, s) =
     (let n = length (takeWhile P s); ls = [lo..<Suc n]
      in map (\<lambda>j. ([], (k + j, drop j s))) (if greedy then rev ls else ls))"
| "rx_run i (Opt r) p = rx_run i r p @ [([], p)]"
| "rx_run i (Seq a b) p =
     concat (map (\<lambda>(g, q). map (\<lambda>(h, q'). (g @ h, q')) (rx_run i b q)) (rx_run i a p))"
| "rx_run i (Alt a b) p = rx_run i a p @ rx_run i b p"
| "rx_run i (Cap r) (k, s) =
     map (\<lambda>(g, (k', s')). (take (k' - k) s # g, (k', s'))) (rx_run i r (k, s))"
| "rx_run i Bol (k, s) = (if k = 0 then [([], (k, s))] else [])"
| "rx_run i Eol (k, s) = (if s = [] then [([], (k, s))] else [])"

text \<open>
  \<open>rx_search\<close> tries the start indices from left to right and takes the first way to
  match at the first index that has one. The result is the match array: the matched
  text, then the groups.
\<close>

fun rx_search :: "bool \<Rightarrow> rx \<Rightarrow> nat \<Rightarrow> string \<Rightarrow> string list option" where
  "rx_search i r k [] =
     (case rx_run i r (k, []) of [] \<Rightarrow> None | (g, (k', _)) # _ \<Rightarrow> Some ([] # g))"
| "rx_search i r k (c # cs) =
     (case rx_run i r (k, c # cs) of
        [] \<Rightarrow> rx_search i r (Suc k) cs
      | (g, (k', _)) # _ \<Rightarrow> Some (take (k' - k) (c # cs) # g))"

definition str_match :: "string \<Rightarrow> bool \<Rightarrow> rx \<Rightarrow> string list option" where
  \<comment> \<open>\<open>s.match(/r/)\<close> or \<open>s.match(/r/i)\<close>, without the flag \<open>g\<close>; \<open>None\<close> is \<open>null\<close>\<close>
  "str_match s i r = rx_search i r 0 s"

definition lit :: "string \<Rightarrow> rx" where
  "lit s = foldr (\<lambda>c r. Seq (Chr c) r) s Eps"

definition seqs :: "rx list \<Rightarrow> rx" where
  "seqs rs = foldr Seq rs Eps"

fun groups :: "rx \<Rightarrow> nat" where
  \<comment> \<open>the number of capturing groups\<close>
  "groups (Cap r) = Suc (groups r)"
| "groups (Seq a b) = groups a + groups b"
| "groups (Alt a b) = groups a + groups b"
| "groups (Opt r) = groups r"
| "groups r = 0"

fun straight :: "rx \<Rightarrow> bool" where
  \<comment> \<open>no group stands inside an optional item or an alternative, so every group takes
      part in every match\<close>
  "straight (Cap r) = straight r"
| "straight (Seq a b) = (straight a \<and> straight b)"
| "straight (Alt a b) = (groups a = 0 \<and> groups b = 0)"
| "straight (Opt r) = (groups r = 0)"
| "straight r = True"


section \<open>Numbers\<close>

text \<open>
  A JavaScript Number is NaN, an infinity or a finite double; a finite double is
  modelled by the rational it denotes (the two zeros are not told apart).
  \<open>toDouble\<close> rounds a rational to the nearest double, ties to even, as the language
  does when it reads a decimal literal or multiplies.
\<close>

datatype jsnum = NaN | PosInf | NegInf | Fin rat

definition pow2 :: "int \<Rightarrow> rat" where
  "pow2 e = (if 0 \<le> e then 2 ^ nat e else 1 / 2 ^ nat (- e))"

definition pow10 :: "int \<Rightarrow> rat" where
  "pow10 e = (if 0 \<le> e then 10 ^ nat e else 1 / 10 ^ nat (- e))"

definition ilog2 :: "rat \<Rightarrow> int" where
  \<comment> \<open>the floor of the binary logarithm of a positive rational\<close>
  "ilog2 q =
     (let (n, d) = quotient_of q;
          e = bitlen n - bitlen d
      in if pow2 e \<le> q then e else e - 1)"

definition roundHalfEven :: "rat \<Rightarrow> int" where
  "roundHalfEven q =
     (let f = \<lfloor>q\<rfloor>; r = q - of_int f
      in if r < 1 / 2 then f else if 1 / 2 < r then f + 1 else if even f then f else f + 1)"

definition toDouble :: "rat \<Rightarrow> jsnum" where
  \<comment> \<open>\<open>e\<close> is the binary exponent (at least that of the subnormals), \<open>r\<close> the rounded
      53-bit significand; the result overflows when \<open>r * 2^(e - 52)\<close> reaches \<open>2^1024\<close>\<close>
  "toDouble q =
     (if q = 0 then Fin 0
      else let a = \<bar>q\<bar>;
               e = max (ilog2 a) (- 1022);
               ulp = pow2 (e - 52);
               r = roundHalfEven (a / ulp);
               v = of_int r * ulp
           in if 1024 \<le> e \<or> (e = 1023 \<and> r = 2 ^ 53) then (if q < 0 then NegInf else PosInf)
              else Fin (if q < 0 then - v else v))"

definition digitVal :: "char \<Rightarrow> int" where
  "digitVal c = of_char c - 48"

definition digitsVal :: "string \<Rightarrow> int" where
  "digitsVal ds = foldl (\<lambda>a c. 10 * a + digitVal c) 0 ds"

definition exponentPart :: "string \<Rightarrow> int" where
  \<comment> \<open>the exponent of a decimal literal: \<open>e\<close> or \<open>E\<close>, an optional sign and at least
      one digit; anything else is no exponent\<close>
  "exponentPart r =
     (case r of [] \<Rightarrow> 0
      | c # t \<Rightarrow>
          if c = CHR ''e'' \<or> c = CHR ''E'' then
            (let neg = startsWith t ''-'';
                 d = (if startsWith t ''-'' \<or> startsWith t ''+'' then tl t else t);
                 ds = takeWhile isDigit d
             in if ds = [] then 0
                else if neg then - digitsVal ds else digitsVal ds)
          else 0)"

definition parseFloat :: "string \<Rightarrow> jsnum" where
  \<comment> \<open>leading white space is skipped, then the longest prefix that is a decimal
      literal (or a signed \<open>Infinity\<close>) is read; NaN when there is none\<close>
  "parseFloat text =
     (let s = dropWhile isSpace text;
          neg = startsWith s ''-'';
          u = (if startsWith s ''-'' \<or> startsWith s ''+'' then tl s else s)
      in if startsWith u ''Infinity'' then (if neg then NegInf else PosInf)
         else
           let ip = takeWhile isDigit u;
               r1 = dropWhile isDigit u;
               fp = (if startsWith r1 ''.'' then takeWhile isDigit (tl r1) else []);
               r2 = (if startsWith r1 ''.'' then dropWhile isDigit (tl r1) else r1)
           in if ip = [] \<and> fp = [] then NaN
              else
                let m = (of_int (digitsVal ip) + of_int (digitsVal fp) / 10 ^ length fp)
                          * pow10 (exponentPart r2)
                in toDouble (if neg then - m else m))"

fun isNaN :: "jsnum \<Rightarrow> bool" where
  "isNaN NaN = True"
| "isNaN _ = False"

fun num_sgn :: "jsnum \<Rightarrow> int" where
  "num_sgn NaN = 0"
| "num_sgn PosInf = 1"
| "num_sgn NegInf = - 1"
| "num_sgn (Fin q) = (if q < 0 then - 1 else if q = 0 then 0 else 1)"

fun num_mul :: "jsnum \<Rightarrow> jsnum \<Rightarrow> jsnum" where
  "num_mul NaN b = NaN"
| "num_mul a NaN = NaN"
| "num_mul (Fin x) (Fin y) = toDouble (x * y)"
| "num_mul a b =
     (let s = num_sgn a * num_sgn b
      in if s = 0 then NaN else if 0 < s then PosInf else NegInf)"

text \<open>
  \<open>Math.round\<close> yields an integral Number (or NaN or an infinity): the type \<open>jsint\<close>.
  A tie rounds towards positive infinity.
\<close>

datatype jsint = INaN | IPosInf | INegInf | IFin int

fun mathRound :: "jsnum \<Rightarrow> jsint" where
  "mathRound NaN = INaN"
| "mathRound PosInf = IPosInf"
| "mathRound NegInf = INegInf"
| "mathRound (Fin q) = IFin \<lfloor>q + 1 / 2\<rfloor>"

fun mathMax :: "jsint \<Rightarrow> jsint \<Rightarrow> jsint" where
  "mathMax INaN b = INaN"
| "mathMax a INaN = INaN"
| "mathMax IPosInf b = IPosInf"
| "mathMax a IPosInf = IPosInf"
| "mathMax INegInf b = b"
| "mathMax a INegInf = a"
| "mathMax (IFin x) (IFin y) = IFin (max x y)"

function intDigits :: "int \<Rightarrow> string" where
  \<comment> \<open>the decimal digits of a non-negative integer\<close>
  "intDigits n =
     (if n < 10 then [char_of (48 + n)] else intDigits (n div 10) @ [char_of (48 + n mod 10)])"
  by pat_completeness auto
termination
  by (relation "measure nat") auto

declare intDigits.simps [simp del]

definition shortestDecimal :: "int \<Rightarrow> int" where
  \<comment> \<open>Number to string prints the decimal with the fewest significant digits that
      still reads back as the same double (the nearest one, the even one on a tie);
      this is its value for the positive integral double \<open>z\<close>\<close>
  "shortestDecimal z =
     (let n = length (intDigits z);
          cands =
            concat (map (\<lambda>k.
              let p = 10 ^ (n - k); lo = (z div p) * p; hi = lo + p
              in filter (\<lambda>v. toDouble (of_int v) = Fin (of_int z))
                   (if z - lo < hi - z then [lo, hi]
                    else if hi - z < z - lo then [hi, lo]
                    else if even (z div p) then [lo, hi] else [hi, lo]))
              [1..<Suc n])
      in case cands of [] \<Rightarrow> z | v # _ \<Rightarrow> v)"

definition posToString :: "int \<Rightarrow> string" where
  \<comment> \<open>below \<open>10^21\<close> the digits; from there on the exponent form\<close>
  "posToString z =
     (let ds = intDigits (shortestDecimal z)
      in if length ds \<le> 21 then ds
         else
           let sig = rev (dropWhile (\<lambda>c. c = CHR ''0'') (rev ds))
           in hd sig # (if tl sig = [] then [] else CHR ''.'' # tl sig)
                @ ''e+'' @ intDigits (int (length ds) - 1))"

fun intToString :: "jsint \<Rightarrow> string" where
  \<comment> \<open>an integral Number inside a template literal\<close>
  "intToString INaN = ''NaN''"
| "intToString IPosInf = ''Infinity''"
| "intToString INegInf = ''-Infinity''"
| "intToString (IFin z) =
     (if z = 0 then ''0''
      else if z < 0 then CHR ''-'' # posToString (- z)
      else posToString z)"


section \<open>Null references\<close>

text \<open>
  A property access on \<open>null\<close> or \<open>undefined\<close> throws a TypeError. A value that may be
  null is an \<open>option\<close>, and \<open>member\<close> is the access: the extraction returns
  \<open>error + 'a\<close>, so that a throw is a result like any other.
\<close>

datatype error = TypeError

definition member :: "'a option \<Rightarrow> error + 'a" where
  "member x = (case x of None \<Rightarrow> Inl TypeError | Some v \<Rightarrow> Inr v)"

definition bindE :: "error + 'a \<Rightarrow> ('a \<Rightarrow> error + 'b) \<Rightarrow> error + 'b" where
  "bindE x f = (case x of Inl e \<Rightarrow> Inl e | Inr v \<Rightarrow> f v)"

fun forEach :: "('s \<Rightarrow> 'a \<Rightarrow> error + 's) \<Rightarrow> 's \<Rightarrow> 'a list \<Rightarrow> error + 's" where
  \<comment> \<open>\<open>xs.forEach(callback)\<close>, where the callback updates an accumulator; a throw ends it\<close>
  "forEach f s [] = Inr s"
| "forEach f s (x # xs) = bindE (f s x) (\<lambda>s'. forEach f s' xs)"


section \<open>Minutes and distance labels\<close>

definition parseMinutesNum :: "string \<Rightarrow> jsnum" where
  "parseMinutesNum text =
     (if str_includes (toLowerCase text) ''approaching'' then Fin 0
      else if str_includes text ''<'' then Fin (1 / 2)
      else let num = parseFloat text in if isNaN num then Fin 999 else num)"

definition stopsRx :: rx where
  \<comment> \<open>\<open>/([\d<]+)\s*stops?\s*away/\<close>\<close>
  "stopsRx =
     seqs [Cap (Rep (\<lambda>c. isDigit c \<or> c = CHR ''<'') 1 True), Rep isSpace 0 True,
           lit ''stop'', Opt (Chr CHR ''s''), Rep isSpace 0 True, lit ''away'']"

definition milesRx :: rx where
  \<comment> \<open>\<open>/([\d.]+)\s*miles?\s*away/\<close>\<close>
  "milesRx =
     seqs [Cap (Rep (\<lambda>c. isDigit c \<or> c = CHR ''.'') 1 True), Rep isSpace 0 True,
           lit ''mile'', Opt (Chr CHR ''s''), Rep isSpace 0 True, lit ''away'']"

definition parseStopsAway :: "string \<Rightarrow> error + string" where
  "parseStopsAway distanceText =
     (let stopsMatch = str_match distanceText True stopsRx
      in if stopsMatch \<noteq> None
         then bindE (member stopsMatch) (\<lambda>m. Inr (m ! 1 @ '' stops away''))
         else if str_includes (toLowerCase distanceText) ''approaching'' then Inr ''Approaching''
         else
           let milesMatch = str_match distanceText True milesRx
           in if milesMatch \<noteq> None
              then bindE (member milesMatch) (\<lambda>m.
                     let miles = parseFloat (m ! 1);
                         stops = mathMax (IFin 1) (mathRound (num_mul miles (Fin 8)))
                     in Inr (''~'' @ intToString stops @ '' stops away''))
              else Inr distanceText)"


section \<open>The document\<close>

text \<open>
  The document is the tree the browser's parser built: elements with their tag (the
  lower-case local name), their class list and their children, text, comments and the
  document type \<open><!DOCTYPE html>\<close>. A document without a document type is in quirks
  mode, where class names match in any ASCII letter case. An element found in the tree
  is a \<open>loc\<close>: the node, the tags of its ancestors (nearest first), the siblings after
  it, and whether its document is in quirks mode.
\<close>

datatype node =
    Element string "string list" "node list"
  | Text string
  | Comment string
  | Doctype

record loc =
  quirks :: bool
  ancestors :: "string list"
  following :: "node list"
  here :: node

fun elements :: "bool \<Rightarrow> string list \<Rightarrow> node list \<Rightarrow> loc list" where
  \<comment> \<open>the elements of a forest in document order\<close>
  "elements q anc [] = []"
| "elements q anc (Element t cl ch # rest) =
     \<lparr>quirks = q, ancestors = anc, following = rest, here = Element t cl ch\<rparr>
       # elements q (t # anc) ch @ elements q anc rest"
| "elements q anc (n # rest) = elements q anc rest"

definition asciiLower :: "char \<Rightarrow> char" where
  "asciiLower c =
     (let n = (of_char c :: nat) in if 65 \<le> n \<and> n \<le> 90 then char_of (n + 32) else c)"

definition quirksMode :: "node list \<Rightarrow> bool" where
  \<comment> \<open>the mode of the document the parser builds: quirks when it has no document type\<close>
  "quirksMode doc = (Doctype \<notin> set doc)"

datatype selector = TagSel string | ClassSel string | Descendant string string

definition matches :: "selector \<Rightarrow> loc \<Rightarrow> bool" where
  \<comment> \<open>\<open>Descendant a t\<close> is the selector \<open>a t\<close>: a \<open>t\<close> with an ancestor \<open>a\<close>, anywhere above;
      a class name is compared as it is written, and in quirks mode in any ASCII
      letter case\<close>
  "matches sel l =
     (case here l of
        Element t cl ch \<Rightarrow>
          (case sel of
             TagSel x \<Rightarrow> t = x
           | ClassSel c \<Rightarrow>
               if quirks l then map asciiLower c \<in> set (map (map asciiLower) cl)
               else c \<in> set cl
           | Descendant a x \<Rightarrow> t = x \<and> a \<in> set (ancestors l))
      | _ \<Rightarrow> False)"

definition doc_querySelectorAll :: "selector \<Rightarrow> node list \<Rightarrow> loc list" where
  "doc_querySelectorAll sel doc = filter (matches sel) (elements (quirksMode doc) [] doc)"

definition querySelectorAll :: "selector \<Rightarrow> loc \<Rightarrow> loc list" where
  \<comment> \<open>the matching descendants of an element, in document order\<close>
  "querySelectorAll sel l =
     (case here l of
        Element t cl ch \<Rightarrow> filter (matches sel) (elements (quirks l) (t # ancestors l) ch)
      | _ \<Rightarrow> [])"

definition querySelector :: "selector \<Rightarrow> loc \<Rightarrow> loc option" where
  "querySelector sel l = (case querySelectorAll sel l of [] \<Rightarrow> None | x # _ \<Rightarrow> Some x)"

fun descendantText :: "node \<Rightarrow> string" where
  "descendantText (Element t cl ch) = concat (map descendantText ch)"
| "descendantText (Text d) = d"
| "descendantText (Comment d) = []"
| "descendantText Doctype = []"

fun textContent :: "node \<Rightarrow> string option" where
  \<comment> \<open>null for a document type; an element's is the text of its descendants\<close>
  "textContent (Element t cl ch) = Some (descendantText (Element t cl ch))"
| "textContent (Text d) = Some d"
| "textContent (Comment d) = Some d"
| "textContent Doctype = None"


section \<open>Extraction\<close>

record BusArrival =
  minutes :: string
  minutesNum :: jsnum
  stopsAway :: string
  vehicleId :: string

record BusRoute =
  route :: string
  direction :: string
  arrivals :: "BusArrival list"

record StopData =
  stopName :: string
  routes :: "BusRoute list"

fun firstSiblingText :: "node list \<Rightarrow> string option" where
  \<comment> \<open>the loop over \<open>nextSibling\<close>: the first sibling whose trimmed text is not empty\<close>
  "firstSiblingText [] = None"
| "firstSiblingText (n # rest) =
     (case map_option trim (textContent n) of
        None \<Rightarrow> firstSiblingText rest
      | Some text \<Rightarrow> if text \<noteq> [] then Some text else firstSiblingText rest)"

fun stopNameLoop :: "loc list \<Rightarrow> string" where
  \<comment> \<open>the loop over the \<open>h3\<close> elements\<close>
  "stopNameLoop [] = []"
| "stopNameLoop (h3 # rest) =
     (if (case textContent (here h3) of None \<Rightarrow> False | Some t \<Rightarrow> str_includes t ''Bus Stop:'')
      then (case firstSiblingText (following h3) of
              Some text \<Rightarrow> text
            | None \<Rightarrow> stopNameLoop rest)
      else stopNameLoop rest)"

definition parseStopName :: "node list \<Rightarrow> string" where
  "parseStopName doc = stopNameLoop (doc_querySelectorAll (TagSel ''h3'') doc)"

definition headerRx :: rx where
  \<comment> \<open>\<open>/^(\S+)\s+(.+)/\<close>\<close>
  "headerRx =
     seqs [Bol, Cap (Rep (\<lambda>c. \<not> isSpace c) 1 True), Rep isSpace 1 True, Cap (Rep isDot 1 True)]"

definition homeHeaderRx :: rx where
  \<comment> \<open>the header pattern of the home page, \<open>/^(\S+)\s/\<close>\<close>
  "homeHeaderRx = seqs [Bol, Cap (Rep (\<lambda>c. \<not> isSpace c) 1 True), Cls isSpace]"

definition distanceRx :: rx where
  \<comment> \<open>\<open>/minutes?\s*,\s*(.+?)(?:\s*Vehicle|\s*$)/\<close>\<close>
  "distanceRx =
     seqs [lit ''minute'', Opt (Chr CHR ''s''), Rep isSpace 0 True, Chr CHR '','',
           Rep isSpace 0 True, Cap (Rep isDot 1 False),
           Alt (Seq (Rep isSpace 0 True) (lit ''Vehicle'')) (Seq (Rep isSpace 0 True) Eol)]"

definition liArrival :: "loc \<Rightarrow> error + BusArrival" where
  \<comment> \<open>the arrival read from a list item: the body of the callback over the ordered lists\<close>
  "liArrival li =
     (let minutesEl = querySelector (TagSel ''strong'') li;
          minutes = (case Option.bind minutesEl (\<lambda>e. textContent (here e)) of
                       Some t \<Rightarrow> trim t | None \<Rightarrow> []);
          vehicleEl = querySelector (TagSel ''small'') li;
          vehicleId = (case Option.bind vehicleEl (\<lambda>e. textContent (here e)) of
                         Some t \<Rightarrow> replace (trim t) ''Vehicle '' [] | None \<Rightarrow> []);
          fullText = (case textContent (here li) of Some t \<Rightarrow> t | None \<Rightarrow> []);
          distanceMatch = str_match fullText False distanceRx;
          rawDistance = (case distanceMatch of Some m \<Rightarrow> trim (m ! 1) | None \<Rightarrow> [])
      in bindE (parseStopsAway rawDistance) (\<lambda>label.
           Inr \<lparr>minutes = minutes, minutesNum = parseMinutesNum minutes,
                stopsAway = label, vehicleId = vehicleId\<rparr>))"

definition olCallback :: "BusArrival list \<Rightarrow> loc \<Rightarrow> error + BusArrival list" where
  "olCallback arrivals0 ol =
     (let li = querySelector (TagSel ''li'') ol
      in if li = None then Inr arrivals0
         else bindE (member li) (\<lambda>li.
                bindE (liArrival li) (\<lambda>a. Inr (arrivals0 @ [a]))))"

definition dirCallback :: "BusRoute list \<Rightarrow> loc \<Rightarrow> error + BusRoute list" where
  "dirCallback routes0 dir =
     (let headerEl = querySelector (Descendant ''p'' ''strong'') dir
      in if headerEl = None then Inr routes0
         else bindE (member headerEl) (\<lambda>headerEl.
           let headerText = (case textContent (here headerEl) of Some t \<Rightarrow> trim t | None \<Rightarrow> []);
               match = str_match headerText False headerRx
           in if match = None then Inr routes0
              else bindE (member match) (\<lambda>m.
                bindE (forEach olCallback [] (querySelectorAll (TagSel ''ol'') dir)) (\<lambda>arrivals.
                  Inr (routes0 @ [\<lparr>route = m ! 1, direction = m ! 2, arrivals = arrivals\<rparr>])))))"

definition parseBusDoc :: "node list \<Rightarrow> error + StopData" where
  \<comment> \<open>\<open>parseBusData\<close> from the parsed document on\<close>
  "parseBusDoc doc =
     bindE (forEach dirCallback [] (doc_querySelectorAll (ClassSel ''directionAtStop'') doc))
       (\<lambda>routes. Inr \<lparr>stopName = parseStopName doc, routes = routes\<rparr>)"

definition parseBusData :: "(string \<Rightarrow> node list) \<Rightarrow> string \<Rightarrow> error + StopData" where
  \<comment> \<open>\<open>parseFromString\<close> is the browser's HTML parser, which returns a document for
      every string\<close>
  "parseBusData parseFromString html = parseBusDoc (parseFromString html)"


section \<open>The refresh controller\<close>

text \<open>
  The component's state hooks and refs are the fields of \<open>controller\<close>; the stop name
  and the routes, which are always set together, are its \<open>snapshot\<close>. Three more fields
  record what the code cannot see: \<open>fetchCount\<close>, the number of calls of \<open>fetch\<close> so far;
  \<open>fetching\<close>, the requests whose fetch has not settled; and \<open>awaiting\<close>, the requests
  that have settled while the \<open>finally\<close> block that clears the in-flight ref has not run
  yet. A request is named by the number of its fetch.
\<close>

record config =
  MIN_REQUEST_GAP_MS :: int
  stopCode :: "string option"
  parseFromString :: "string \<Rightarrow> node list"

record controller =
  snapshot :: StopData
  lastUpdated :: "int option"
  loading :: bool
  isRefreshing :: bool
  nextAllowedRefreshAt :: int
  nowMs :: int
  error :: "string option"
  lastRequestAt :: int
  inFlightRequest :: "nat option"
  fetchCount :: nat
  fetching :: "nat list"
  awaiting :: "nat list"

definition initial :: "int \<Rightarrow> controller" where
  \<comment> \<open>the state at mount, at the time \<open>t\<close>\<close>
  "initial t =
     \<lparr>snapshot = \<lparr>stopName = [], routes = []\<rparr>, lastUpdated = None, loading = True,
      isRefreshing = False, nextAllowedRefreshAt = 0, nowMs = t, error = None,
      lastRequestAt = 0, inFlightRequest = None, fetchCount = 0, fetching = [], awaiting = []\<rparr>"

text \<open>
  What a call of \<open>fetchBusData\<close> returns: a promise that is already resolved
  (\<open>Undefined\<close>), the promise of the request in flight, or the promise of the request
  the call has started.
\<close>

datatype returned = Undefined | InFlight nat | Started nat

definition falsy :: "string option \<Rightarrow> bool" where
  \<comment> \<open>\<open>!stopCode\<close>: undefined or the empty string\<close>
  "falsy c = (case c of None \<Rightarrow> True | Some t \<Rightarrow> t = [])"

definition fetchBusData :: "config \<Rightarrow> int \<Rightarrow> controller \<Rightarrow> returned \<times> controller" where
  \<comment> \<open>a call at the time \<open>now\<close>, up to the point where it waits for the network\<close>
  "fetchBusData cfg now s =
     (if falsy (stopCode cfg) then (Undefined, s)
      else case inFlightRequest s of
        Some p \<Rightarrow> (InFlight p, s)
      | None \<Rightarrow>
          if now - lastRequestAt s < MIN_REQUEST_GAP_MS cfg then (Undefined, s)
          else
            let p = fetchCount s
            in (Started p,
                s\<lparr>lastRequestAt := now,
                  nextAllowedRefreshAt := now + MIN_REQUEST_GAP_MS cfg,
                  isRefreshing := True,
                  fetchCount := Suc (fetchCount s),
                  fetching := fetching s @ [p],
                  inFlightRequest := Some p\<rparr>))"

text \<open>
  How a fetch ends: \<open>fetch\<close> rejects with a thrown value, or a response arrives with its
  status and then its body, or the failure to read it.
\<close>

datatype thrown = ErrorObject string | NotAnError

datatype outcome = FetchRejected thrown | Response int "thrown + string"

definition ok :: "int \<Rightarrow> bool" where
  \<comment> \<open>\<open>res.ok\<close>\<close>
  "ok status = (200 \<le> status \<and> status \<le> 299)"

fun caught :: "thrown \<Rightarrow> string" where
  \<comment> \<open>\<open>e instanceof Error ? e.message : 'Failed to fetch'\<close>\<close>
  "caught (ErrorObject message) = message"
| "caught NotAnError = ''Failed to fetch''"

fun errorMessage :: "error \<Rightarrow> string" where
  "errorMessage TypeError = ''TypeError''"

definition requestSettled :: "config \<Rightarrow> outcome \<Rightarrow> int \<Rightarrow> controller \<Rightarrow> controller" where
  \<comment> \<open>the rest of the request once its fetch has settled, at the time \<open>now\<close>: the
      \<open>try\<close>, \<open>catch\<close> and \<open>finally\<close> blocks\<close>
  "requestSettled cfg out now s =
     (let s' =
        (case out of
           FetchRejected e \<Rightarrow> s\<lparr>error := Some (caught e)\<rparr>
         | Response status body \<Rightarrow>
             if \<not> ok status then s\<lparr>error := Some (''HTTP '' @ intToString (IFin status))\<rparr>
             else
               (case body of
                  Inl e \<Rightarrow> s\<lparr>error := Some (caught e)\<rparr>
                | Inr html \<Rightarrow>
                    (case parseBusData (parseFromString cfg) html of
                       Inl e \<Rightarrow> s\<lparr>error := Some (errorMessage e)\<rparr>
                     | Inr parsed \<Rightarrow>
                         s\<lparr>snapshot := parsed, lastUpdated := Some now, error := None\<rparr>)))
      in s'\<lparr>loading := False, isRefreshing := False\<rparr>)"

text \<open>
  The events of the page: a call of \<open>fetchBusData\<close> (the button, or the effect at
  mount), a tick of the refresh interval with the visibility of the page, the end of
  a fetch, the \<open>finally\<close> block of the call that started a request, and the tick of the
  clock. \<open>step\<close> is \<open>None\<close> where the event cannot happen.
\<close>

datatype event =
    Refresh int
  | Interval bool int
  | Settle nat outcome int
  | Release nat
  | Tick int

fun step :: "config \<Rightarrow> event \<Rightarrow> controller \<Rightarrow> controller option" where
  "step cfg (Refresh now) s = Some (snd (fetchBusData cfg now s))"
| "step cfg (Interval visible now) s =
     (if \<not> visible then Some s else Some (snd (fetchBusData cfg now s)))"
| "step cfg (Settle p out now) s =
     (if p \<in> set (fetching s)
      then Some ((requestSettled cfg out now s)
                   \<lparr>fetching := removeAll p (fetching s), awaiting := awaiting s @ [p]\<rparr>)
      else None)"
| "step cfg (Release p) s =
     (if p \<in> set (awaiting s)
      then Some (s\<lparr>inFlightRequest := None, awaiting := removeAll p (awaiting s)\<rparr>)
      else None)"
| "step cfg (Tick now) s = Some (s\<lparr>nowMs := now\<rparr>)"

fun run :: "config \<Rightarrow> event list \<Rightarrow> controller \<Rightarrow> controller option" where
  "run cfg [] s = Some s"
| "run cfg (e # es) s = (case step cfg e s of None \<Rightarrow> None | Some s' \<Rightarrow> run cfg es s')"

definition refreshCooldownSeconds :: "controller \<Rightarrow> int" where
  \<comment> \<open>\<open>Math.max(0, Math.ceil((nextAllowedRefreshAt - nowMs) / 1000))\<close>\<close>
  "refreshCooldownSeconds s = max 0 (- ((nowMs s - nextAllowedRefreshAt s) div 1000))"

definition tracked :: "config \<Rightarrow> controller \<Rightarrow> bool" where
  \<comment> \<open>the in-flight ref and the requests under way agree: with the ref empty there is
      none; with the ref set there is exactly that one, fetching or settled\<close>
  "tracked cfg s =
     (case inFlightRequest s of
        None \<Rightarrow> fetching s = [] \<and> awaiting s = []
      | Some p \<Rightarrow>
          (fetching s = [p] \<and> awaiting s = []) \<or> (fetching s = [] \<and> awaiting s = [p]))"


section \<open>Sample documents\<close>

definition sampleLi :: node where
  \<comment> \<open>its text is \<open>3 minutes, 2 stops away, Vehicle 1234\<close>\<close>
  "sampleLi =
     Element ''li'' []
       [Element ''strong'' [] [Text ''3 min''], Text ''utes, 2 stops away, '',
        Element ''small'' [] [Text ''Vehicle 1234'']]"

definition sampleBlock :: node where
  "sampleBlock =
     Element ''div'' [''directionAtStop'']
       [Element ''p'' [] [Element ''strong'' [] [Text ''M101 Southbound'']],
        Element ''ol'' [] [sampleLi]]"

definition sampleDoc :: "node list" where
  "sampleDoc = [Doctype, Element ''html'' [] [Element ''body'' [] [sampleBlock]]]"

definition bareBlock :: node where
  "bareBlock =
     Element ''div'' [''directionAtStop'']
       [Element ''p'' [] [Element ''strong'' [] [Text ''M101'']],
        Element ''ol'' [] [sampleLi]]"

definition bareHeaderDoc :: "node list" where
  \<comment> \<open>one block whose header is the route token alone\<close>
  "bareHeaderDoc = [Doctype, Element ''html'' [] [Element ''body'' [] [bareBlock]]]"

definition quirksDoc :: "node list" where
  \<comment> \<open>a document without a document type, whose block writes the class in lower case\<close>
  "quirksDoc =
     [Element ''html'' [] [Element ''body'' []
        [Element ''div'' [''directionatstop'']
           [Element ''p'' [] [Element ''strong'' [] [Text ''M101 Southbound'']]]]]]"

definition sampleConfig :: config where
  "sampleConfig =
     \<lparr>MIN_REQUEST_GAP_MS = 5000, stopCode = Some ''402854'',
      parseFromString = (\<lambda>html. sampleDoc)\<rparr>"


text \<open>
  The elements of the sample documents where they stand in the tree, and states of the
  controller for a configuration with a gap of five seconds.
\<close>

definition inBody :: "node \<Rightarrow> loc" where
  \<comment> \<open>a child of the body that has no later sibling, in a document with a document type\<close>
  "inBody n = \<lparr>quirks = False, ancestors = [''body'', ''html''], following = [], here = n\<rparr>"

definition sampleHeader :: loc where
  "sampleHeader =
     \<lparr>quirks = False, ancestors = [''p'', ''div'', ''body'', ''html''], following = [],
      here = Element ''strong'' [] [Text ''M101 Southbound'']\<rparr>"

definition sampleOl :: loc where
  "sampleOl =
     \<lparr>quirks = False, ancestors = [''div'', ''body'', ''html''], following = [],
      here = Element ''ol'' [] [sampleLi]\<rparr>"

definition sampleItem :: loc where
  "sampleItem =
     \<lparr>quirks = False, ancestors = [''ol'', ''div'', ''body'', ''html''], following = [], here = sampleLi\<rparr>"

definition sampleStrong :: loc where
  "sampleStrong =
     \<lparr>quirks = False, ancestors = [''li'', ''ol'', ''div'', ''body'', ''html''],
      following = [Text ''utes, 2 stops away, '', Element ''small'' [] [Text ''Vehicle 1234'']],
      here = Element ''strong'' [] [Text ''3 min'']\<rparr>"

definition sampleSmall :: loc where
  "sampleSmall =
     \<lparr>quirks = False, ancestors = [''li'', ''ol'', ''div'', ''body'', ''html''], following = [],
      here = Element ''small'' [] [Text ''Vehicle 1234'']\<rparr>"


definition capitalItem :: loc where
  \<comment> \<open>a list item whose text is \<open>3 Minutes, 2 stops away\<close>\<close>
  "capitalItem =
     \<lparr>quirks = False, ancestors = [''ol'', ''div'', ''body'', ''html''], following = [],
      here = Element ''li'' []
               [Element ''strong'' [] [Text ''3 Minutes''], Text '', 2 stops away'']\<rparr>"

definition bareItem :: loc where
  \<comment> \<open>a list item with no \<open>strong\<close>, no \<open>small\<close> and no distance\<close>
  "bareItem =
     \<lparr>quirks = False, ancestors = [''ol'', ''div'', ''body'', ''html''], following = [],
      here = Element ''li'' [] [Text ''no data'']\<rparr>"


definition bareHeader :: loc where
  "bareHeader =
     \<lparr>quirks = False, ancestors = [''p'', ''div'', ''body'', ''html''], following = [],
      here = Element ''strong'' [] [Text ''M101'']\<rparr>"




definition waitingState :: controller where
  \<comment> \<open>a request issued at 100000 is waiting for its fetch\<close>
  "waitingState = the (run sampleConfig [Refresh 100000] (initial 99000))"

definition failedState :: controller where
  \<comment> \<open>the fetch of \<open>waitingState\<close> has ended with the status 503\<close>
  "failedState =
     the (step sampleConfig (Settle 0 (Response 503 (Inr ''Service Unavailable'')) 100400)
            waitingState)"

definition releasedState :: controller where
  "releasedState = the (step sampleConfig (Release 0) failedState)"


section \<open>Facts about the matcher\<close>

text \<open>
  In a pattern without a group inside an optional item or an alternative, every match
  fills every group: the match arrays of the four patterns have a fixed length, so
  the indices the program reads exist.
\<close>

lemma rx_run_Seq_cases:
  assumes "(g, q) \<in> set (rx_run i (Seq a b) p)"
  obtains g1 q1 g2 where "(g1, q1) \<in> set (rx_run i a p)" "(g2, q) \<in> set (rx_run i b q1)"
    "g = g1 @ g2"
  using assms by auto

lemma rx_run_Cap_cases:
  assumes "(g, q) \<in> set (rx_run i (Cap r) p)"
  obtains t g1 where "(g1, q) \<in> set (rx_run i r p)" "g = t # g1"
  using assms by (cases p) auto

lemma rx_run_Alt_cases:
  assumes "(g, q) \<in> set (rx_run i (Alt a b) p)"
  shows "(g, q) \<in> set (rx_run i a p) \<or> (g, q) \<in> set (rx_run i b p)"
  using assms by auto

lemma rx_run_Opt_cases:
  assumes "(g, q) \<in> set (rx_run i (Opt r) p)"
  shows "(g, q) \<in> set (rx_run i r p) \<or> g = []"
  using assms by auto

lemma rx_run_atoms:
  "(g, q) \<in> set (rx_run i Eps p) \<Longrightarrow> g = []"
  "(g, q) \<in> set (rx_run i (Chr c) p) \<Longrightarrow> g = []"
  "(g, q) \<in> set (rx_run i (Cls P) p) \<Longrightarrow> g = []"
  "(g, q) \<in> set (rx_run i (Rep P lo gr) p) \<Longrightarrow> g = []"
  "(g, q) \<in> set (rx_run i Bol p) \<Longrightarrow> g = []"
  "(g, q) \<in> set (rx_run i Eol p) \<Longrightarrow> g = []"
  by (cases p; auto simp: Let_def split: list.splits if_splits)+

lemma rx_run_no_groups:
  "groups r = 0 \<Longrightarrow> (g, q) \<in> set (rx_run i r p) \<Longrightarrow> g = []"
proof (induction r arbitrary: g q p)
  case (Seq a b)
  from Seq.prems(2) obtain g1 q1 g2 where
    parts: "(g1, q1) \<in> set (rx_run i a p)" "(g2, q) \<in> set (rx_run i b q1)" "g = g1 @ g2"
    by (rule rx_run_Seq_cases)
  from Seq.prems(1) have z: "groups a = 0" "groups b = 0" by simp_all
  from Seq.IH(1) [OF z(1) parts(1)] Seq.IH(2) [OF z(2) parts(2)] parts(3)
  show ?case by simp
next
  case (Alt a b)
  from Alt.prems(1) have z: "groups a = 0" "groups b = 0" by simp_all
  from rx_run_Alt_cases [OF Alt.prems(2)] Alt.IH(1) [OF z(1)] Alt.IH(2) [OF z(2)]
  show ?case by blast
next
  case (Opt r)
  from Opt.prems(1) have z: "groups r = 0" by simp
  from rx_run_Opt_cases [OF Opt.prems(2)] Opt.IH [OF z]
  show ?case by blast
next
  case (Cap r)
  then show ?case by simp
next
  case Eps
  then show ?case by (blast dest: rx_run_atoms)
next
  case (Chr c)
  then show ?case by (blast dest: rx_run_atoms)
next
  case (Cls P)
  then show ?case by (blast dest: rx_run_atoms)
next
  case (Rep P lo gr)
  then show ?case by (blast dest: rx_run_atoms)
next
  case Bol
  then show ?case by (blast dest: rx_run_atoms)
next
  case Eol
  then show ?case by (blast dest: rx_run_atoms)
qed

lemma rx_run_groups:
  "straight r \<Longrightarrow> (g, q) \<in> set (rx_run i r p) \<Longrightarrow> length g = groups r"
proof (induction r arbitrary: g q p)
  case (Seq a b)
  from Seq.prems(2) obtain g1 q1 g2 where
    parts: "(g1, q1) \<in> set (rx_run i a p)" "(g2, q) \<in> set (rx_run i b q1)" "g = g1 @ g2"
    by (rule rx_run_Seq_cases)
  from Seq.prems(1) have z: "straight a" "straight b" by simp_all
  from Seq.IH(1) [OF z(1) parts(1)] Seq.IH(2) [OF z(2) parts(2)] parts(3)
  show ?case by simp
next
  case (Cap r)
  from Cap.prems(2) obtain t g1 where parts: "(g1, q) \<in> set (rx_run i r p)" "g = t # g1"
    by (rule rx_run_Cap_cases)
  from Cap.prems(1) have z: "straight r" by simp
  from Cap.IH [OF z parts(1)] parts(2) show ?case by simp
next
  case (Alt a b)
  then have z: "groups (Alt a b) = 0" by simp
  then have "g = []" using Alt.prems(2) by (rule rx_run_no_groups)
  with z show ?case by simp
next
  case (Opt r)
  then have z: "groups (Opt r) = 0" by simp
  then have "g = []" using Opt.prems(2) by (rule rx_run_no_groups)
  with z show ?case by simp
next
  case Eps
  then have "g = []" by (blast dest: rx_run_atoms)
  then show ?case by simp
next
  case (Chr c)
  then have "g = []" by (blast dest: rx_run_atoms)
  then show ?case by simp
next
  case (Cls P)
  then have "g = []" by (blast dest: rx_run_atoms)
  then show ?case by simp
next
  case (Rep P lo gr)
  then have "g = []" by (blast dest: rx_run_atoms)
  then show ?case by simp
next
  case Bol
  then have "g = []" by (blast dest: rx_run_atoms)
  then show ?case by simp
next
  case Eol
  then have "g = []" by (blast dest: rx_run_atoms)
  then show ?case by simp
qed

lemma rx_search_groups:
  assumes "straight r" and "rx_search i r k s = Some m"
  shows "length m = Suc (groups r)"
  using assms(2)
proof (induction s arbitrary: k)
  case Nil
  then obtain g q rest where "rx_run i r (k, []) = (g, q) # rest" "m = [] # g"
    by (auto split: list.splits simp del: rx_run.simps)
  then have "(g, q) \<in> set (rx_run i r (k, []))" by simp
  with assms(1) have "length g = groups r" by (rule rx_run_groups)
  with \<open>m = [] # g\<close> show ?case by simp
next
  case (Cons c cs)
  show ?case
  proof (cases "rx_run i r (k, c # cs)")
    case Nil
    with Cons.prems have "rx_search i r (Suc k) cs = Some m" by (simp del: rx_run.simps)
    then show ?thesis by (rule Cons.IH)
  next
    case (Cons gq rest)
    obtain g q where gq: "gq = (g, q)" by (cases gq)
    with Cons have "(g, q) \<in> set (rx_run i r (k, c # cs))" by simp
    with assms(1) have "length g = groups r" by (rule rx_run_groups)
    moreover from Cons gq Cons.prems have "length m = Suc (length g)"
      by (cases q) (auto simp del: rx_run.simps)
    ultimately show ?thesis by simp
  qed
qed

lemma match_arrays:
  "(str_match s True stopsRx = Some m \<longrightarrow> length m = 2)
   \<and> (str_match s True milesRx = Some m \<longrightarrow> length m = 2)
   \<and> (str_match s False distanceRx = Some m \<longrightarrow> length m = 2)
   \<and> (str_match s False headerRx = Some m \<longrightarrow> length m = 3)"
proof -
  have a: "straight stopsRx" "groups stopsRx = 1"
    by (simp_all add: stopsRx_def seqs_def lit_def)
  have b: "straight milesRx" "groups milesRx = 1"
    by (simp_all add: milesRx_def seqs_def lit_def)
  have c: "straight distanceRx" "groups distanceRx = 1"
    by (simp_all add: distanceRx_def seqs_def lit_def)
  have d: "straight headerRx" "groups headerRx = 2"
    by (simp_all add: headerRx_def seqs_def)
  have "length m = 2" if "str_match s True stopsRx = Some m"
    using rx_search_groups [OF a(1)] that a(2) by (simp add: str_match_def)
  moreover have "length m = 2" if "str_match s True milesRx = Some m"
    using rx_search_groups [OF b(1)] that b(2) by (simp add: str_match_def)
  moreover have "length m = 2" if "str_match s False distanceRx = Some m"
    using rx_search_groups [OF c(1)] that c(2) by (simp add: str_match_def)
  moreover have "length m = 3" if "str_match s False headerRx = Some m"
    using rx_search_groups [OF d(1)] that d(2) by (simp add: str_match_def)
  ultimately show ?thesis by blast
qed

text \<open>
  A pattern that starts with a literal word matches only a text that contains the word,
  and the header pattern needs white space.
\<close>

lemma rx_run_Seq_empty:
  assumes "\<And>g q. (g, q) \<in> set (rx_run i a p) \<Longrightarrow> rx_run i b q = []"
  shows "rx_run i (Seq a b) p = []"
  using assms by (auto simp: concat_eq_Nil_conv)

lemma rx_run_Cap_Rep_pos:
  assumes "(g, q) \<in> set (rx_run i (Cap (Rep P lo gr)) (k, s))"
  shows "\<exists>j. q = (k + j, drop j s)"
  using assms by (auto simp: Let_def)

lemma rx_run_lit:
  "rx_run False (lit w) (k, s) =
     (if startsWith s w then [([], (k + length w, drop (length w) s))] else [])"
proof (induction w arbitrary: k s)
  case Nil
  then show ?case by (simp add: lit_def)
next
  case (Cons c w)
  have unfold: "lit (c # w) = Seq (Chr c) (lit w)" by (simp add: lit_def)
  show ?case
  proof (cases s)
    case Nil
    then show ?thesis by (simp add: unfold)
  next
    case (Cons x xs)
    then show ?thesis using Cons.IH [of "Suc k" xs] by (simp add: unfold)
  qed
qed

lemma rx_run_lit_Seq_startsWith:
  assumes "rx_run False (Seq (lit w) r) (k, s) \<noteq> []"
  shows "startsWith s w"
  using assms by (auto simp: rx_run_lit split: if_splits)

lemma rx_search_lit_includes:
  assumes "rx_search False (Seq (lit w) r) k s = Some m"
  shows "str_includes s w"
  using assms
proof (induction s arbitrary: k)
  case Nil
  then have "rx_run False (Seq (lit w) r) (k, []) \<noteq> []"
    by (auto split: list.splits simp del: rx_run.simps)
  then have "startsWith [] w" by (rule rx_run_lit_Seq_startsWith)
  then show ?case by (cases w) auto
next
  case (Cons c cs)
  show ?case
  proof (cases "rx_run False (Seq (lit w) r) (k, c # cs) = []")
    case True
    with Cons.prems have "rx_search False (Seq (lit w) r) (Suc k) cs = Some m"
      by (simp del: rx_run.simps)
    then show ?thesis using Cons.IH by simp
  next
    case False
    then have "startsWith (c # cs) w" by (rule rx_run_lit_Seq_startsWith)
    then show ?thesis by simp
  qed
qed

lemma distanceRx_needs_minute:
  assumes "\<not> str_includes t ''minute''"
  shows "str_match t False distanceRx = None"
proof (cases "str_match t False distanceRx")
  case None
  then show ?thesis .
next
  case (Some m)
  have "\<exists>r. distanceRx = Seq (lit ''minute'') r" by (simp add: distanceRx_def seqs_def)
  then obtain r where "distanceRx = Seq (lit ''minute'') r" ..
  with Some have "rx_search False (Seq (lit ''minute'') r) 0 t = Some m"
    by (simp add: str_match_def)
  then have "str_includes t ''minute''" by (rule rx_search_lit_includes)
  with assms show ?thesis by simp
qed

lemma headerRx_run_no_space:
  assumes "\<forall>c \<in> set s. \<not> isSpace c"
  shows "rx_run False headerRx (k, s) = []"
proof -
  define tail1 where "tail1 = Seq (Cap (Rep isDot 1 True)) Eps"
  define nonsp where "nonsp = Cap (Rep (\<lambda>c. \<not> isSpace c) 1 True)"
  have shape: "headerRx = Seq Bol (Seq nonsp (Seq (Rep isSpace 1 True) tail1))"
    by (simp add: headerRx_def seqs_def tail1_def nonsp_def)
  have no_run: "rx_run False (Seq (Rep isSpace 1 True) tail1) (k + j, drop j s) = []" for j
  proof -
    have "set (drop j s) \<subseteq> set s" by (rule set_drop_subset)
    with assms have "\<forall>c \<in> set (drop j s). \<not> isSpace c" by blast
    then have "takeWhile isSpace (drop j s) = []"
      by (cases "drop j s") auto
    then show ?thesis by (simp add: Let_def)
  qed
  have inner: "rx_run False (Seq nonsp (Seq (Rep isSpace 1 True) tail1)) (k, s) = []"
  proof (rule rx_run_Seq_empty)
    fix g q
    assume "(g, q) \<in> set (rx_run False nonsp (k, s))"
    then obtain j where "q = (k + j, drop j s)"
      unfolding nonsp_def using rx_run_Cap_Rep_pos by blast
    then show "rx_run False (Seq (Rep isSpace 1 True) tail1) q = []" using no_run by simp
  qed
  show ?thesis
    unfolding shape
  proof (rule rx_run_Seq_empty)
    fix g q
    assume "(g, q) \<in> set (rx_run False Bol (k, s))"
    then have "q = (k, s)" by (auto split: if_splits)
    then show "rx_run False (Seq nonsp (Seq (Rep isSpace 1 True) tail1)) q = []"
      using inner by simp
  qed
qed

lemma headerRx_no_space:
  assumes "\<forall>c \<in> set t. \<not> isSpace c"
  shows "str_match t False headerRx = None"
proof -
  have "rx_search False headerRx k s = None" if "\<forall>c \<in> set s. \<not> isSpace c" for k s
    using that
  proof (induction s arbitrary: k)
    case Nil
    then show ?case using headerRx_run_no_space [of "[]" k] by simp
  next
    case (Cons c cs)
    then show ?case using headerRx_run_no_space [of "c # cs" k] by simp
  qed
  then show ?thesis using assms by (simp add: str_match_def)
qed


section \<open>Minutes to rank\<close>

text \<open>
  Claim C6. The rules of \<open>parseMinutesNum\<close>, tried in this order: a text that contains
  "approaching" in any letter case has rank 0; failing that, a text that contains
  \<open><\<close> has rank 0.5; failing both, the rank is the number \<open>parseFloat\<close> reads at the
  start of the text, and 999 when it reads none. In particular "Approaching" has rank
  0, "<1 min" has 0.5, "garbage" has 999 and "7 min" has 7.
\<close>

theorem parseMinutesNum_rules:
  "(str_includes (toLowerCase text) ''approaching'' \<longrightarrow> parseMinutesNum text = Fin 0)
   \<and> (\<not> str_includes (toLowerCase text) ''approaching'' \<and> str_includes text ''<''
        \<longrightarrow> parseMinutesNum text = Fin (1 / 2))
   \<and> (\<not> str_includes (toLowerCase text) ''approaching'' \<and> \<not> str_includes text ''<''
        \<longrightarrow> parseMinutesNum text = (if isNaN (parseFloat text) then Fin 999 else parseFloat text))
   \<and> parseMinutesNum ''Approaching'' = Fin 0
   \<and> parseMinutesNum ''<1 min'' = Fin (1 / 2)
   \<and> parseMinutesNum ''garbage'' = Fin 999
   \<and> parseMinutesNum ''7 min'' = Fin 7"
proof -
  have a: "parseMinutesNum ''Approaching'' = Fin 0" by code_simp
  have b: "parseMinutesNum ''<1 min'' = Fin (1 / 2)" by code_simp
  have c: "parseMinutesNum ''garbage'' = Fin 999" by code_simp
  have d: "parseMinutesNum ''7 min'' = Fin 7" by code_simp
  show ?thesis
    unfolding a b c d by (simp add: parseMinutesNum_def Let_def)
qed

theorem parseMinutesNum_rules_witness:
  "str_includes (toLowerCase ''APPROACHING <1'') ''approaching''
   \<and> parseMinutesNum ''APPROACHING <1'' = Fin 0
   \<and> \<not> str_includes (toLowerCase ''< 1 minute'') ''approaching''
   \<and> str_includes ''< 1 minute'' ''<''
   \<and> parseMinutesNum ''< 1 minute'' = Fin (1 / 2)
   \<and> \<not> str_includes (toLowerCase ''12.5 minutes'') ''approaching''
   \<and> \<not> str_includes ''12.5 minutes'' ''<''
   \<and> parseMinutesNum ''12.5 minutes'' = Fin (25 / 2)"
proof -
  have h1: "str_includes (toLowerCase ''APPROACHING <1'') ''approaching''" by code_simp
  have h2: "\<not> str_includes (toLowerCase ''< 1 minute'') ''approaching''" by code_simp
  have h3: "str_includes ''< 1 minute'' ''<''" by code_simp
  have h4: "\<not> str_includes (toLowerCase ''12.5 minutes'') ''approaching''" by code_simp
  have h5: "\<not> str_includes ''12.5 minutes'' ''<''" by code_simp
  have h6: "parseFloat ''12.5 minutes'' = Fin (25 / 2)" by code_simp
  note r = parseMinutesNum_rules
  from r [of "''APPROACHING <1''"] h1
  have c1: "parseMinutesNum ''APPROACHING <1'' = Fin 0" by blast
  from r [of "''< 1 minute''"] h2 h3
  have c2: "parseMinutesNum ''< 1 minute'' = Fin (1 / 2)" by blast
  from r [of "''12.5 minutes''"] h4 h5
  have "parseMinutesNum ''12.5 minutes'' =
          (if isNaN (parseFloat ''12.5 minutes'') then Fin 999 else parseFloat ''12.5 minutes'')"
    by blast
  then have c3: "parseMinutesNum ''12.5 minutes'' = Fin (25 / 2)" by (simp add: h6)
  from h1 h2 h3 h4 h5 c1 c2 c3 show ?thesis by blast
qed


section \<open>Distance labels\<close>

text \<open>
  Claim C7. The rules of \<open>parseStopsAway\<close>, the first that applies winning: a match of
  the stops-away pattern gives the captured count followed by " stops away"; failing
  that, "approaching" in any letter case gives "Approaching"; failing that, a match
  of the miles pattern gives "~", then \<open>max(1, round(miles * 8))\<close>, then " stops away";
  failing all three the text is returned as it is. In particular "3 stops away" stays,
  "2.1 miles away" becomes "~17 stops away", "0.05 miles away" becomes
  "~1 stops away" and "Approaching now" becomes "Approaching".
\<close>

theorem parseStopsAway_rules:
  "(str_match d True stopsRx = Some m \<longrightarrow> parseStopsAway d = Inr (m ! 1 @ '' stops away''))
   \<and> (str_match d True stopsRx = None \<and> str_includes (toLowerCase d) ''approaching''
        \<longrightarrow> parseStopsAway d = Inr ''Approaching'')
   \<and> (str_match d True stopsRx = None \<and> \<not> str_includes (toLowerCase d) ''approaching''
        \<and> str_match d True milesRx = Some m
        \<longrightarrow> parseStopsAway d =
              Inr (''~'' @ intToString (mathMax (IFin 1)
                      (mathRound (num_mul (parseFloat (m ! 1)) (Fin 8)))) @ '' stops away''))
   \<and> (str_match d True stopsRx = None \<and> \<not> str_includes (toLowerCase d) ''approaching''
        \<and> str_match d True milesRx = None
        \<longrightarrow> parseStopsAway d = Inr d)
   \<and> parseStopsAway ''3 stops away'' = Inr ''3 stops away''
   \<and> parseStopsAway ''2.1 miles away'' = Inr ''~17 stops away''
   \<and> parseStopsAway ''0.05 miles away'' = Inr ''~1 stops away''
   \<and> parseStopsAway ''Approaching now'' = Inr ''Approaching''"
proof -
  have a: "parseStopsAway ''3 stops away'' = Inr ''3 stops away''" by code_simp
  have b: "parseStopsAway ''2.1 miles away'' = Inr ''~17 stops away''" by code_simp
  have c: "parseStopsAway ''0.05 miles away'' = Inr ''~1 stops away''" by code_simp
  have e: "parseStopsAway ''Approaching now'' = Inr ''Approaching''" by code_simp
  show ?thesis
    unfolding a b c e by (simp add: parseStopsAway_def Let_def member_def bindE_def)
qed

theorem parseStopsAway_rules_witness:
  "str_match ''<1 stop away'' True stopsRx = Some [''<1 stop away'', ''<1'']
   \<and> parseStopsAway ''<1 stop away'' = Inr ''<1 stops away''
   \<and> str_match ''APPROACHING'' True stopsRx = None
   \<and> str_includes (toLowerCase ''APPROACHING'') ''approaching''
   \<and> parseStopsAway ''APPROACHING'' = Inr ''Approaching''
   \<and> \<not> str_includes (toLowerCase ''1.5 Miles Away'') ''approaching''
   \<and> str_match ''1.5 Miles Away'' True stopsRx = None
   \<and> str_match ''1.5 Miles Away'' True milesRx = Some [''1.5 Miles Away'', ''1.5'']
   \<and> parseStopsAway ''1.5 Miles Away'' = Inr ''~12 stops away''
   \<and> str_match ''at terminal'' True milesRx = None
   \<and> parseStopsAway ''at terminal'' = Inr ''at terminal''"
proof -
  have s1: "str_match ''<1 stop away'' True stopsRx = Some [''<1 stop away'', ''<1'']"
    by code_simp
  have s2: "str_match ''APPROACHING'' True stopsRx = None" by code_simp
  have a2: "str_includes (toLowerCase ''APPROACHING'') ''approaching''" by code_simp
  have s3: "str_match ''1.5 Miles Away'' True stopsRx = None" by code_simp
  have a3: "\<not> str_includes (toLowerCase ''1.5 Miles Away'') ''approaching''" by code_simp
  have m3: "str_match ''1.5 Miles Away'' True milesRx = Some [''1.5 Miles Away'', ''1.5'']"
    by code_simp
  have n3: "intToString (mathMax (IFin 1) (mathRound (num_mul (parseFloat ''1.5'') (Fin 8)))) = ''12''"
    by code_simp
  have s4: "str_match ''at terminal'' True stopsRx = None" by code_simp
  have a4: "\<not> str_includes (toLowerCase ''at terminal'') ''approaching''" by code_simp
  have m4: "str_match ''at terminal'' True milesRx = None" by code_simp
  note r = parseStopsAway_rules
  from r [of "''<1 stop away''" "[''<1 stop away'', ''<1'']"] s1
  have c1: "parseStopsAway ''<1 stop away'' = Inr ''<1 stops away''" by simp
  from r [of "''APPROACHING''"] s2 a2
  have c2: "parseStopsAway ''APPROACHING'' = Inr ''Approaching''" by blast
  from r [of "''1.5 Miles Away''" "[''1.5 Miles Away'', ''1.5'']"] s3 a3 m3
  have c3: "parseStopsAway ''1.5 Miles Away'' = Inr ''~12 stops away''" by (simp add: n3)
  from r [of "''at terminal''"] s4 a4 m4
  have c4: "parseStopsAway ''at terminal'' = Inr ''at terminal''" by blast
  from s1 s2 a2 s3 a3 m3 m4 c1 c2 c3 c4 show ?thesis by blast
qed


section \<open>The extraction never throws\<close>

text \<open>
  Every access to a reference that may be null stands behind its test: the callbacks
  and the whole extraction return a value.
\<close>

lemma quirks_mode_class:
  "map (\<lambda>l. here l) (doc_querySelectorAll (ClassSel ''directionAtStop'') quirksDoc)
     = [Element ''div'' [''directionatstop'']
          [Element ''p'' [] [Element ''strong'' [] [Text ''M101 Southbound'']]]]
   \<and> doc_querySelectorAll (ClassSel ''directionAtStop'') (Doctype # quirksDoc) = []"
  by code_simp

lemma parseStopsAway_total: "\<exists>label. parseStopsAway d = Inr label"
  by (cases "str_match d True stopsRx"; cases "str_match d True milesRx")
     (simp_all add: parseStopsAway_def Let_def member_def bindE_def)

lemma liArrival_total: "\<exists>a. liArrival li = Inr a"
proof -
  obtain label where
    "parseStopsAway
       (case str_match (case textContent (here li) of Some t \<Rightarrow> t | None \<Rightarrow> []) False distanceRx of
          Some m \<Rightarrow> trim (m ! 1) | None \<Rightarrow> []) = Inr label"
    using parseStopsAway_total by blast
  then show ?thesis by (simp add: liArrival_def Let_def bindE_def)
qed

lemma olCallback_result:
  "\<exists>xs. olCallback acc ol = Inr (acc @ xs)
        \<and> map Inr xs =
            map liArrival (case querySelector (TagSel ''li'') ol of None \<Rightarrow> [] | Some li \<Rightarrow> [li])"
proof (cases "querySelector (TagSel ''li'') ol")
  case None
  then show ?thesis by (simp add: olCallback_def)
next
  case (Some li)
  obtain a where "liArrival li = Inr a" using liArrival_total by blast
  with Some show ?thesis by (simp add: olCallback_def member_def bindE_def)
qed

lemma forEach_olCallback:
  "\<exists>xs. forEach olCallback acc ols = Inr (acc @ xs)
        \<and> map Inr xs = map liArrival (List.map_filter (querySelector (TagSel ''li'')) ols)"
proof (induction ols arbitrary: acc)
  case Nil
  then show ?case by (simp add: List.map_filter_simps)
next
  case (Cons ol ols)
  obtain xs where xs: "olCallback acc ol = Inr (acc @ xs)"
      "map Inr xs = map liArrival (case querySelector (TagSel ''li'') ol of None \<Rightarrow> [] | Some li \<Rightarrow> [li])"
    using olCallback_result by blast
  obtain ys where ys: "forEach olCallback (acc @ xs) ols = Inr ((acc @ xs) @ ys)"
      "map Inr ys = map liArrival (List.map_filter (querySelector (TagSel ''li'')) ols)"
    using Cons.IH by blast
  have "forEach olCallback acc (ol # ols) = Inr (acc @ (xs @ ys))"
    using xs(1) ys(1) by (simp add: bindE_def)
  moreover have "map Inr (xs @ ys) =
      map liArrival (List.map_filter (querySelector (TagSel ''li'')) (ol # ols))"
    using xs(2) ys(2) by (cases "querySelector (TagSel ''li'') ol") (simp_all add: List.map_filter_simps)
  ultimately show ?case by blast
qed

lemma dirCallback_header:
  assumes "querySelector (Descendant ''p'' ''strong'') dir = Some h"
    and "str_match (case textContent (here h) of Some t \<Rightarrow> trim t | None \<Rightarrow> []) False headerRx = Some m"
  shows "\<exists>xs. dirCallback acc dir = Inr (acc @ [\<lparr>route = m ! 1, direction = m ! 2, arrivals = xs\<rparr>])
        \<and> map Inr xs =
            map liArrival
              (List.map_filter (querySelector (TagSel ''li'')) (querySelectorAll (TagSel ''ol'') dir))"
proof -
  obtain xs where xs: "forEach olCallback [] (querySelectorAll (TagSel ''ol'') dir) = Inr xs"
    "map Inr xs =
       map liArrival
         (List.map_filter (querySelector (TagSel ''li'')) (querySelectorAll (TagSel ''ol'') dir))"
    using forEach_olCallback [of "[]"] by auto
  have "dirCallback acc dir = Inr (acc @ [\<lparr>route = m ! 1, direction = m ! 2, arrivals = xs\<rparr>])"
    using assms xs(1) by (simp add: dirCallback_def member_def bindE_def Let_def)
  with xs(2) show ?thesis by blast
qed

lemma dirCallback_skips:
  assumes "querySelector (Descendant ''p'' ''strong'') dir = Some h"
    and "str_match (case textContent (here h) of Some t \<Rightarrow> trim t | None \<Rightarrow> []) False headerRx = None"
  shows "dirCallback acc dir = Inr acc"
  using assms by (simp add: dirCallback_def member_def bindE_def Let_def)

lemma dirCallback_total: "\<exists>rs. dirCallback acc dir = Inr rs"
proof (cases "querySelector (Descendant ''p'' ''strong'') dir")
  case None
  then show ?thesis by (simp add: dirCallback_def)
next
  case (Some h)
  show ?thesis
  proof (cases "str_match (case textContent (here h) of Some t \<Rightarrow> trim t | None \<Rightarrow> []) False headerRx")
    case None
    with Some show ?thesis using dirCallback_skips by blast
  next
    case (Some m)
    with \<open>querySelector (Descendant ''p'' ''strong'') dir = Some h\<close> show ?thesis
      using dirCallback_header by blast
  qed
qed

lemma forEach_total:
  assumes "\<And>s x. \<exists>s'. f s x = Inr s'"
  shows "\<exists>s'. forEach f s xs = Inr s'"
proof (induction xs arbitrary: s)
  case Nil
  then show ?case by simp
next
  case (Cons x xs)
  obtain s1 where "f s x = Inr s1" using assms by blast
  then show ?case using Cons.IH [of s1] by (simp add: bindE_def)
qed

lemma parseBusDoc_total: "\<exists>snap. parseBusDoc doc = Inr snap"
proof -
  obtain rs where
    "forEach dirCallback [] (doc_querySelectorAll (ClassSel ''directionAtStop'') doc) = Inr rs"
    using forEach_total [of dirCallback] dirCallback_total by blast
  then show ?thesis by (simp add: parseBusDoc_def bindE_def)
qed

text \<open>
  Claim C9. For every input string, \<open>parseBusData\<close> returns a snapshot and does not throw
  (the result is never a TypeError), whatever document the parser builds from the
  string; it is a function of its input alone. Missing parts fall back to defaults: a
  list item without a \<open>strong\<close> element has the empty minutes text and rank 999, one
  without a \<open>small\<close> element has the empty vehicle id, one whose text has no distance
  has the empty distance label, a distance text no rule matches is passed through,
  a minutes text with no number has rank 999, and a document without an \<open>h3\<close> has the
  empty stop name.
\<close>

theorem parseBusData_total:
  "(\<exists>snap. parseBusData parser html = Inr snap)
   \<and> (\<exists>a. liArrival li = Inr a)
   \<and> (querySelector (TagSel ''strong'') li = None
        \<longrightarrow> (\<exists>a. liArrival li = Inr a \<and> minutes a = [] \<and> minutesNum a = Fin 999))
   \<and> (querySelector (TagSel ''small'') li = None
        \<longrightarrow> (\<exists>a. liArrival li = Inr a \<and> vehicleId a = []))
   \<and> (str_match (case textContent (here li) of Some t \<Rightarrow> t | None \<Rightarrow> []) False distanceRx = None
        \<longrightarrow> (\<exists>a. liArrival li = Inr a \<and> stopsAway a = []))
   \<and> (str_match d True stopsRx = None \<and> \<not> str_includes (toLowerCase d) ''approaching''
        \<and> str_match d True milesRx = None
        \<longrightarrow> parseStopsAway d = Inr d)
   \<and> (\<not> str_includes (toLowerCase text) ''approaching'' \<and> \<not> str_includes text ''<''
        \<and> isNaN (parseFloat text)
        \<longrightarrow> parseMinutesNum text = Fin 999)
   \<and> (doc_querySelectorAll (TagSel ''h3'') doc = [] \<longrightarrow> parseStopName doc = [])"
proof -
  have total: "\<exists>snap. parseBusData parser html = Inr snap"
    using parseBusDoc_total by (simp add: parseBusData_def)
  obtain a where a: "liArrival li = Inr a" using liArrival_total by blast
  have m0: "parseMinutesNum [] = Fin 999" by code_simp
  have e: "parseStopsAway [] = Inr []" by code_simp
  have strong: "minutes a = [] \<and> minutesNum a = Fin 999"
    if "querySelector (TagSel ''strong'') li = None"
    using a that unfolding liArrival_def Let_def
    by (auto simp: bindE_def m0 split: sum.splits)
  have small: "vehicleId a = []" if "querySelector (TagSel ''small'') li = None"
    using a that unfolding liArrival_def Let_def
    by (auto simp: bindE_def split: sum.splits)
  have dist: "stopsAway a = []"
    if "str_match (case textContent (here li) of Some t \<Rightarrow> t | None \<Rightarrow> []) False distanceRx = None"
    using a that unfolding liArrival_def Let_def
    by (auto simp: bindE_def e split: sum.splits)
  have pass: "parseStopsAway d = Inr d"
    if "str_match d True stopsRx = None" "\<not> str_includes (toLowerCase d) ''approaching''"
       "str_match d True milesRx = None"
    using that by (simp add: parseStopsAway_def Let_def)
  have rank: "parseMinutesNum text = Fin 999"
    if "\<not> str_includes (toLowerCase text) ''approaching''" "\<not> str_includes text ''<''"
       "isNaN (parseFloat text)"
    using that by (simp add: parseMinutesNum_def Let_def)
  have name: "parseStopName doc = []" if "doc_querySelectorAll (TagSel ''h3'') doc = []"
    using that by (simp add: parseStopName_def)
  from total a strong small dist pass rank name show ?thesis by blast
qed

theorem parseBusData_total_witness:
  "querySelector (TagSel ''strong'') bareItem = None
   \<and> querySelector (TagSel ''small'') bareItem = None
   \<and> str_match (case textContent (here bareItem) of Some t \<Rightarrow> t | None \<Rightarrow> []) False distanceRx = None
   \<and> liArrival bareItem = Inr \<lparr>minutes = [], minutesNum = Fin 999, stopsAway = [], vehicleId = []\<rparr>
   \<and> str_match ''at terminal'' True stopsRx = None
   \<and> \<not> str_includes (toLowerCase ''at terminal'') ''approaching''
   \<and> str_match ''at terminal'' True milesRx = None
   \<and> parseStopsAway ''at terminal'' = Inr ''at terminal''
   \<and> \<not> str_includes (toLowerCase ''garbage'') ''approaching''
   \<and> \<not> str_includes ''garbage'' ''<''
   \<and> isNaN (parseFloat ''garbage'')
   \<and> parseMinutesNum ''garbage'' = Fin 999
   \<and> doc_querySelectorAll (TagSel ''h3'') sampleDoc = []
   \<and> parseStopName sampleDoc = []
   \<and> (\<exists>snap. parseBusData (\<lambda>html. sampleDoc) ''<html>'' = Inr snap)"
proof -
  have a1: "querySelector (TagSel ''strong'') bareItem = None" by code_simp
  have a2: "querySelector (TagSel ''small'') bareItem = None" by code_simp
  have a3: "str_match (case textContent (here bareItem) of Some t \<Rightarrow> t | None \<Rightarrow> []) False distanceRx = None"
    by code_simp
  have a4: "liArrival bareItem = Inr \<lparr>minutes = [], minutesNum = Fin 999, stopsAway = [], vehicleId = []\<rparr>"
    by code_simp
  have b1: "str_match ''at terminal'' True stopsRx = None" by code_simp
  have b2: "\<not> str_includes (toLowerCase ''at terminal'') ''approaching''" by code_simp
  have b3: "str_match ''at terminal'' True milesRx = None" by code_simp
  have c1: "\<not> str_includes (toLowerCase ''garbage'') ''approaching''" by code_simp
  have c2: "\<not> str_includes ''garbage'' ''<''" by code_simp
  have c3: "isNaN (parseFloat ''garbage'')" by code_simp
  have d1: "doc_querySelectorAll (TagSel ''h3'') sampleDoc = []" by code_simp
  note r = parseBusData_total
             [of "\<lambda>html. sampleDoc" "''<html>''" bareItem "''at terminal''" "''garbage''" sampleDoc]
  from r b1 b2 b3 have e1: "parseStopsAway ''at terminal'' = Inr ''at terminal''" by blast
  from r c1 c2 c3 have e2: "parseMinutesNum ''garbage'' = Fin 999" by blast
  from r d1 have e3: "parseStopName sampleDoc = []" by blast
  from r have e4: "\<exists>snap. parseBusData (\<lambda>html. sampleDoc) ''<html>'' = Inr snap" by blast
  from a1 a2 a3 a4 b1 b2 b3 c1 c2 c3 d1 e1 e2 e3 e4 show ?thesis by blast
qed


section \<open>Headers\<close>

text \<open>
  Claim C3, as amended. A block whose trimmed header text holds no white space (a
  route token alone, such as "M101") is skipped: the callback leaves the routes as
  they were, and the block adds no entry to the output. The header pattern asks for
  the route token, white space and at least one more character.
\<close>

theorem bare_header_block_skipped:
  "querySelector (Descendant ''p'' ''strong'') dir = Some h
   \<and> textContent (here h) = Some t
   \<and> \<not> list_ex isSpace (trim t)
   \<longrightarrow> dirCallback acc dir = Inr acc"
proof (intro impI, elim conjE)
  assume h: "querySelector (Descendant ''p'' ''strong'') dir = Some h"
    and t: "textContent (here h) = Some t"
    and ns: "\<not> list_ex isSpace (trim t)"
  from ns have "\<forall>c \<in> set (trim t). \<not> isSpace c" by (simp add: list_ex_iff)
  then have "str_match (trim t) False headerRx = None" by (rule headerRx_no_space)
  then have "str_match (case textContent (here h) of Some t \<Rightarrow> trim t | None \<Rightarrow> []) False headerRx = None"
    by (simp add: t)
  with h show "dirCallback acc dir = Inr acc" by (rule dirCallback_skips)
qed

theorem bare_header_block_skipped_witness:
  "querySelector (Descendant ''p'' ''strong'') (inBody bareBlock) = Some bareHeader
   \<and> textContent (here bareHeader) = Some ''M101''
   \<and> \<not> list_ex isSpace (trim ''M101'')
   \<and> dirCallback [] (inBody bareBlock) = Inr []"
proof -
  have a: "querySelector (Descendant ''p'' ''strong'') (inBody bareBlock) = Some bareHeader"
    by code_simp
  have b: "textContent (here bareHeader) = Some ''M101''" by code_simp
  have c: "\<not> list_ex isSpace (trim ''M101'')" by code_simp
  from bare_header_block_skipped [of "inBody bareBlock" bareHeader "''M101''" "[]"] a b c
  have "dirCallback [] (inBody bareBlock) = Inr []" by blast
  with a b c show ?thesis by blast
qed

text \<open>
  The claim as it was stated fails on the document whose only block has the header
  "M101": the extraction returns no route at all. Neither the header pattern of the
  stop page nor that of the home page matches the bare token.
\<close>

theorem bare_header_counterexample:
  "map (\<lambda>d. map_option (\<lambda>h. textContent (here h)) (querySelector (Descendant ''p'' ''strong'') d))
     (doc_querySelectorAll (ClassSel ''directionAtStop'') bareHeaderDoc) = [Some (Some ''M101'')]
   \<and> parseBusDoc bareHeaderDoc = Inr \<lparr>stopName = [], routes = []\<rparr>
   \<and> str_match (trim ''M101'') False headerRx = None
   \<and> str_match (trim ''M101'') False homeHeaderRx = None"
  by code_simp


section \<open>The sample document\<close>

text \<open>
  Claim C5. In a document with one block whose header reads "M101 Southbound" and one
  ordered list whose first item has the \<open>strong\<close> text "3 min", the \<open>small\<close> text
  "Vehicle 1234" and the full text "3 minutes, 2 stops away, Vehicle 1234", the
  extraction yields exactly one route: M101, Southbound, with the one arrival
  "3 min", rank 3, "2 stops away", vehicle 1234.
\<close>

theorem sample_extraction:
  assumes "doc_querySelectorAll (ClassSel ''directionAtStop'') doc = [dir]"
    and "querySelector (Descendant ''p'' ''strong'') dir = Some header"
    and "textContent (here header) = Some ''M101 Southbound''"
    and "querySelectorAll (TagSel ''ol'') dir = [ol]"
    and "querySelector (TagSel ''li'') ol = Some li"
    and "querySelector (TagSel ''strong'') li = Some strong"
    and "textContent (here strong) = Some ''3 min''"
    and "querySelector (TagSel ''small'') li = Some small"
    and "textContent (here small) = Some ''Vehicle 1234''"
    and "textContent (here li) = Some ''3 minutes, 2 stops away, Vehicle 1234''"
  shows "parseBusDoc doc =
           Inr \<lparr>stopName = parseStopName doc,
                routes = [\<lparr>route = ''M101'', direction = ''Southbound'',
                           arrivals = [\<lparr>minutes = ''3 min'', minutesNum = Fin 3,
                                        stopsAway = ''2 stops away'', vehicleId = ''1234''\<rparr>]\<rparr>]\<rparr>"
proof -
  have m1: "trim ''3 min'' = ''3 min''" by code_simp
  have m2: "parseMinutesNum ''3 min'' = Fin 3" by code_simp
  have v1: "replace (trim ''Vehicle 1234'') ''Vehicle '' [] = ''1234''" by code_simp
  have d1: "str_match ''3 minutes, 2 stops away, Vehicle 1234'' False distanceRx
              = Some [''minutes, 2 stops away, Vehicle'', ''2 stops away,'']" by code_simp
  have d2: "trim ''2 stops away,'' = ''2 stops away,''" by code_simp
  have d3: "parseStopsAway ''2 stops away,'' = Inr ''2 stops away''" by code_simp
  have h1: "trim ''M101 Southbound'' = ''M101 Southbound''" by code_simp
  have h2: "str_match ''M101 Southbound'' False headerRx
              = Some [''M101 Southbound'', ''M101'', ''Southbound'']" by code_simp
  have item: "liArrival li =
      Inr \<lparr>minutes = ''3 min'', minutesNum = Fin 3,
           stopsAway = ''2 stops away'', vehicleId = ''1234''\<rparr>"
    unfolding liArrival_def Let_def
    by (simp only: assms Option.bind.simps option.case m1 m2 v1 d1 d2 d3 nth_Cons_0 nth_Cons_Suc
          One_nat_def bindE_def sum.case)
  have list: "olCallback [] ol =
      Inr [\<lparr>minutes = ''3 min'', minutesNum = Fin 3,
            stopsAway = ''2 stops away'', vehicleId = ''1234''\<rparr>]"
    by (simp add: olCallback_def assms(5) member_def bindE_def item)
  have lists: "forEach olCallback [] (querySelectorAll (TagSel ''ol'') dir) =
      Inr [\<lparr>minutes = ''3 min'', minutesNum = Fin 3,
            stopsAway = ''2 stops away'', vehicleId = ''1234''\<rparr>]"
    by (simp add: assms(4) list bindE_def)
  have block: "dirCallback [] dir =
      Inr [\<lparr>route = ''M101'', direction = ''Southbound'',
            arrivals = [\<lparr>minutes = ''3 min'', minutesNum = Fin 3,
                         stopsAway = ''2 stops away'', vehicleId = ''1234''\<rparr>]\<rparr>]"
    unfolding dirCallback_def Let_def
    by (simp add: assms(2) assms(3) h1 h2 member_def bindE_def lists)
  show ?thesis
    by (simp add: parseBusDoc_def assms(1) block bindE_def)
qed

theorem sample_extraction_witness:
  "doc_querySelectorAll (ClassSel ''directionAtStop'') sampleDoc = [inBody sampleBlock]
   \<and> querySelector (Descendant ''p'' ''strong'') (inBody sampleBlock) = Some sampleHeader
   \<and> textContent (here sampleHeader) = Some ''M101 Southbound''
   \<and> querySelectorAll (TagSel ''ol'') (inBody sampleBlock) = [sampleOl]
   \<and> querySelector (TagSel ''li'') sampleOl = Some sampleItem
   \<and> querySelector (TagSel ''strong'') sampleItem = Some sampleStrong
   \<and> textContent (here sampleStrong) = Some ''3 min''
   \<and> querySelector (TagSel ''small'') sampleItem = Some sampleSmall
   \<and> textContent (here sampleSmall) = Some ''Vehicle 1234''
   \<and> textContent (here sampleItem) = Some ''3 minutes, 2 stops away, Vehicle 1234''
   \<and> parseBusDoc sampleDoc =
         Inr \<lparr>stopName = [],
              routes = [\<lparr>route = ''M101'', direction = ''Southbound'',
                         arrivals = [\<lparr>minutes = ''3 min'', minutesNum = Fin 3,
                                      stopsAway = ''2 stops away'', vehicleId = ''1234''\<rparr>]\<rparr>]\<rparr>"
proof -
  have a1: "doc_querySelectorAll (ClassSel ''directionAtStop'') sampleDoc = [inBody sampleBlock]"
    by code_simp
  have a2: "querySelector (Descendant ''p'' ''strong'') (inBody sampleBlock) = Some sampleHeader"
    by code_simp
  have a3: "textContent (here sampleHeader) = Some ''M101 Southbound''" by code_simp
  have a4: "querySelectorAll (TagSel ''ol'') (inBody sampleBlock) = [sampleOl]" by code_simp
  have a5: "querySelector (TagSel ''li'') sampleOl = Some sampleItem" by code_simp
  have a6: "querySelector (TagSel ''strong'') sampleItem = Some sampleStrong" by code_simp
  have a7: "textContent (here sampleStrong) = Some ''3 min''" by code_simp
  have a8: "querySelector (TagSel ''small'') sampleItem = Some sampleSmall" by code_simp
  have a9: "textContent (here sampleSmall) = Some ''Vehicle 1234''" by code_simp
  have a10: "textContent (here sampleItem) = Some ''3 minutes, 2 stops away, Vehicle 1234''"
    by code_simp
  have n: "parseStopName sampleDoc = []" by code_simp
  note r = sample_extraction [OF a1 a2 a3 a4 a5 a6 a7 a8 a9 a10]
  from r n have "parseBusDoc sampleDoc =
         Inr \<lparr>stopName = [],
              routes = [\<lparr>route = ''M101'', direction = ''Southbound'',
                         arrivals = [\<lparr>minutes = ''3 min'', minutesNum = Fin 3,
                                      stopsAway = ''2 stops away'', vehicleId = ''1234''\<rparr>]\<rparr>]\<rparr>"
    by simp
  with a1 a2 a3 a4 a5 a6 a7 a8 a9 a10 show ?thesis by blast
qed


section \<open>Ordered lists\<close>




section \<open>The distance pattern is case-sensitive\<close>

text \<open>
  Claim C10. The pattern that finds the distance in a list item's text matches
  "minute" and "minutes" in lower case only: for an item whose text does not contain
  "minute" (it may say "3 Minutes, 2 stops away") there is no match, so the raw
  distance and the distance label are empty. The stops-away and miles patterns of the
  label, in contrast, match in any letter case.
\<close>

theorem capital_minutes_no_distance:
  "textContent (here li) = Some t \<and> \<not> str_includes t ''minute''
   \<longrightarrow> str_match t False distanceRx = None
       \<and> (\<exists>a. liArrival li = Inr a \<and> stopsAway a = [])
       \<and> str_match ''3 Minutes, 2 stops away'' False distanceRx = None
       \<and> str_match ''3 minutes, 2 stops away'' False distanceRx
            = Some [''minutes, 2 stops away'', ''2 stops away'']
       \<and> parseStopsAway ''2 STOPS AWAY'' = Inr ''2 stops away''
       \<and> parseStopsAway ''0.5 MILES AWAY'' = Inr ''~4 stops away''"
proof (intro impI, elim conjE)
  assume t: "textContent (here li) = Some t" and no: "\<not> str_includes t ''minute''"
  from no have none: "str_match t False distanceRx = None" by (rule distanceRx_needs_minute)
  have e: "parseStopsAway [] = Inr []" by code_simp
  have item: "\<exists>a. liArrival li = Inr a \<and> stopsAway a = []"
    unfolding liArrival_def Let_def by (simp add: t none e bindE_def)
  have c1: "str_match ''3 Minutes, 2 stops away'' False distanceRx = None" by code_simp
  have c2: "str_match ''3 minutes, 2 stops away'' False distanceRx
            = Some [''minutes, 2 stops away'', ''2 stops away'']" by code_simp
  have c3: "parseStopsAway ''2 STOPS AWAY'' = Inr ''2 stops away''" by code_simp
  have c4: "parseStopsAway ''0.5 MILES AWAY'' = Inr ''~4 stops away''" by code_simp
  from none item c1 c2 c3 c4
  show "str_match t False distanceRx = None
       \<and> (\<exists>a. liArrival li = Inr a \<and> stopsAway a = [])
       \<and> str_match ''3 Minutes, 2 stops away'' False distanceRx = None
       \<and> str_match ''3 minutes, 2 stops away'' False distanceRx
            = Some [''minutes, 2 stops away'', ''2 stops away'']
       \<and> parseStopsAway ''2 STOPS AWAY'' = Inr ''2 stops away''
       \<and> parseStopsAway ''0.5 MILES AWAY'' = Inr ''~4 stops away''"
    by blast
qed

theorem capital_minutes_no_distance_witness:
  "textContent (here capitalItem) = Some ''3 Minutes, 2 stops away''
   \<and> \<not> str_includes ''3 Minutes, 2 stops away'' ''minute''
   \<and> str_match ''3 Minutes, 2 stops away'' False distanceRx = None
   \<and> liArrival capitalItem =
        Inr \<lparr>minutes = ''3 Minutes'', minutesNum = Fin 3, stopsAway = [], vehicleId = []\<rparr>"
proof -
  have a: "textContent (here capitalItem) = Some ''3 Minutes, 2 stops away''" by code_simp
  have b: "\<not> str_includes ''3 Minutes, 2 stops away'' ''minute''" by code_simp
  have c: "liArrival capitalItem =
        Inr \<lparr>minutes = ''3 Minutes'', minutesNum = Fin 3, stopsAway = [], vehicleId = []\<rparr>"
    by code_simp
  from capital_minutes_no_distance [of capitalItem "''3 Minutes, 2 stops away''"] a b
  have "str_match ''3 Minutes, 2 stops away'' False distanceRx = None" by blast
  with a b c show ?thesis by blast
qed


section \<open>The minimum gap between requests\<close>




section \<open>One fetch at a time\<close>

text \<open>
  The in-flight ref tells the truth in every state the page can reach.
\<close>

lemma tracked_initial: "tracked cfg (initial t)"
  by (simp add: tracked_def initial_def)

lemma tracked_fetchBusData:
  assumes "tracked cfg s"
  shows "tracked cfg (snd (fetchBusData cfg now s))"
  using assms by (auto simp: tracked_def fetchBusData_def Let_def split: option.splits)

lemma requestSettled_refs:
  "inFlightRequest (requestSettled cfg out now s) = inFlightRequest s
   \<and> fetching (requestSettled cfg out now s) = fetching s
   \<and> awaiting (requestSettled cfg out now s) = awaiting s
   \<and> fetchCount (requestSettled cfg out now s) = fetchCount s
   \<and> lastRequestAt (requestSettled cfg out now s) = lastRequestAt s"
  by (simp add: requestSettled_def Let_def split: outcome.splits sum.splits)

lemma tracked_step:
  assumes "tracked cfg s" and "step cfg e s = Some s'"
  shows "tracked cfg s'"
proof (cases e)
  case (Refresh now)
  with assms show ?thesis using tracked_fetchBusData by auto
next
  case (Interval visible now)
  with assms show ?thesis using tracked_fetchBusData by (auto split: if_splits)
next
  case (Settle p out now)
  with assms show ?thesis
    by (auto simp: tracked_def requestSettled_refs split: if_splits option.splits)
next
  case (Release p)
  with assms show ?thesis
    by (auto simp: tracked_def split: if_splits option.splits)
next
  case (Tick now)
  with assms show ?thesis by (auto simp: tracked_def split: option.splits)
qed

lemma tracked_run:
  assumes "tracked cfg s" and "run cfg es s = Some s'"
  shows "tracked cfg s'"
  using assms
proof (induction es arbitrary: s)
  case Nil
  then show ?case by simp
next
  case (Cons e es)
  from Cons.prems(2) obtain s1 where s1: "step cfg e s = Some s1" "run cfg es s1 = Some s'"
    by (auto split: option.splits)
  from Cons.prems(1) s1(1) have "tracked cfg s1" by (rule tracked_step)
  then show ?case using s1(2) by (rule Cons.IH)
qed

lemma fetching_needs_stopCode:
  assumes "run cfg es s = Some s'" and "falsy (stopCode cfg)" and "fetching s = []"
  shows "fetching s' = []"
  using assms
proof (induction es arbitrary: s)
  case Nil
  then show ?case by simp
next
  case (Cons e es)
  then obtain s1 where s1: "step cfg e s = Some s1" "run cfg es s1 = Some s'"
    by (auto split: option.splits)
  have "fetching s1 = []"
    using s1(1) Cons.prems(2,3)
    by (cases e) (auto simp: fetchBusData_def split: if_splits)
  with Cons.IH s1(2) Cons.prems(2) show ?case by blast
qed

lemma run_append:
  "run cfg (es @ fs) s = (case run cfg es s of None \<Rightarrow> None | Some s' \<Rightarrow> run cfg fs s')"
  by (induction es arbitrary: s) (auto split: option.splits)

text \<open>
  Claim C1. In every state the controller reaches from its initial state, by any
  sequence of events, at most one fetch is under way. A call of \<open>fetchBusData\<close> made
  while the fetch of the request \<open>p\<close> is under way starts no fetch, changes nothing
  and returns the promise of \<open>p\<close>. In particular, when a call starts the request \<open>p\<close>
  and a second call follows before the fetch ends, the two calls together perform
  exactly one fetch, and the second returns the promise of \<open>p\<close>.
\<close>

theorem single_flight:
  "run cfg es (initial t0) = Some s
   \<longrightarrow> length (fetching s) \<le> 1
       \<and> (fetching s = [p]
            \<longrightarrow> fetchBusData cfg now s = (InFlight p, s) \<and> step cfg (Refresh now) s = Some s)
       \<and> (fst (fetchBusData cfg t1 s) = Started p
            \<longrightarrow> (\<exists>s2. run cfg (es @ [Refresh t1, Refresh t2]) (initial t0) = Some s2
                    \<and> fetching s2 = [p]
                    \<and> fetchCount s2 = Suc (fetchCount s)
                    \<and> fetchBusData cfg t2 (snd (fetchBusData cfg t1 s)) = (InFlight p, s2)))"
proof
  assume r: "run cfg es (initial t0) = Some s"
  have tr: "tracked cfg s" using tracked_initial r by (rule tracked_run)
  have one: "length (fetching s) \<le> 1"
    using tr by (auto simp: tracked_def split: option.splits)
  have joined: "fetchBusData cfg now s = (InFlight p, s) \<and> step cfg (Refresh now) s = Some s"
    if f: "fetching s = [p]"
  proof -
    have "\<not> falsy (stopCode cfg)"
    proof
      assume "falsy (stopCode cfg)"
      with r have "fetching s = []" by (rule fetching_needs_stopCode) (simp add: initial_def)
      with f show False by simp
    qed
    moreover have "inFlightRequest s = Some p"
      using tr f by (auto simp: tracked_def split: option.splits)
    ultimately show ?thesis by (simp add: fetchBusData_def)
  qed
  have two: "\<exists>s2. run cfg (es @ [Refresh t1, Refresh t2]) (initial t0) = Some s2
                    \<and> fetching s2 = [p]
                    \<and> fetchCount s2 = Suc (fetchCount s)
                    \<and> fetchBusData cfg t2 (snd (fetchBusData cfg t1 s)) = (InFlight p, s2)"
    if st: "fst (fetchBusData cfg t1 s) = Started p"
  proof -
    define s1 where "s1 = snd (fetchBusData cfg t1 s)"
    from st have nf: "\<not> falsy (stopCode cfg)" and idle: "inFlightRequest s = None"
      and p: "p = fetchCount s"
      by (auto simp: fetchBusData_def Let_def split: if_splits option.splits)
    from tr idle have "fetching s = []" by (simp add: tracked_def)
    with st nf idle have s1: "inFlightRequest s1 = Some p" "fetching s1 = [p]"
        "fetchCount s1 = Suc (fetchCount s)"
      unfolding s1_def by (auto simp: fetchBusData_def Let_def split: if_splits)
    from nf s1(1) have again: "fetchBusData cfg t2 s1 = (InFlight p, s1)"
      by (simp add: fetchBusData_def)
    have "run cfg (es @ [Refresh t1, Refresh t2]) (initial t0) = Some s1"
      using r again by (simp add: run_append s1_def)
    with s1 again show ?thesis unfolding s1_def by blast
  qed
  from one joined two
  show "length (fetching s) \<le> 1
       \<and> (fetching s = [p]
            \<longrightarrow> fetchBusData cfg now s = (InFlight p, s) \<and> step cfg (Refresh now) s = Some s)
       \<and> (fst (fetchBusData cfg t1 s) = Started p
            \<longrightarrow> (\<exists>s2. run cfg (es @ [Refresh t1, Refresh t2]) (initial t0) = Some s2
                    \<and> fetching s2 = [p]
                    \<and> fetchCount s2 = Suc (fetchCount s)
                    \<and> fetchBusData cfg t2 (snd (fetchBusData cfg t1 s)) = (InFlight p, s2)))"
    by blast
qed

theorem single_flight_witness:
  "run sampleConfig [Refresh 100000] (initial 99000) = Some waitingState
   \<and> fetching waitingState = [0]
   \<and> fetchCount waitingState = 1
   \<and> fetchBusData sampleConfig 100001 waitingState = (InFlight 0, waitingState)
   \<and> step sampleConfig (Refresh 100001) waitingState = Some waitingState
   \<and> run sampleConfig [] (initial 99000) = Some (initial 99000)
   \<and> fst (fetchBusData sampleConfig 100000 (initial 99000)) = Started 0
   \<and> (\<exists>s2. run sampleConfig ([] @ [Refresh 100000, Refresh 100001]) (initial 99000) = Some s2
          \<and> fetching s2 = [0] \<and> fetchCount s2 = Suc (fetchCount (initial 99000)))"
proof -
  have a: "run sampleConfig [Refresh 100000] (initial 99000) = Some waitingState" by code_simp
  have b: "fetching waitingState = [0]" by code_simp
  have c: "fetchCount waitingState = 1" by code_simp
  have d: "run sampleConfig [] (initial 99000) = Some (initial 99000)" by simp
  have e: "fst (fetchBusData sampleConfig 100000 (initial 99000)) = Started 0" by code_simp
  from single_flight [of sampleConfig "[Refresh 100000]" 99000 waitingState 0 100001] a b
  have f: "fetchBusData sampleConfig 100001 waitingState = (InFlight 0, waitingState)
           \<and> step sampleConfig (Refresh 100001) waitingState = Some waitingState"
    by blast
  from single_flight [of sampleConfig "[]" 99000 "initial 99000" 0 _ 100000 100001] d e
  have g: "\<exists>s2. run sampleConfig ([] @ [Refresh 100000, Refresh 100001]) (initial 99000) = Some s2
          \<and> fetching s2 = [0] \<and> fetchCount s2 = Suc (fetchCount (initial 99000))"
    by blast
  from a b c d e f g show ?thesis by blast
qed


section \<open>Small integers as text\<close>

text \<open>
  An integer below \<open>2^53\<close> is a double, so rounding leaves it alone, and the shortest
  decimal that reads back as an integer below \<open>2^52\<close> is the integer itself: inside a
  template literal it is written with its decimal digits. A status from 100 to 999
  is written with its three digits.
\<close>

lemma quotient_of_of_int: "quotient_of (of_int v) = (v, 1)"
  using quotient_of_int [of v] by (simp add: Rat.of_int_def)

lemma bitlen_one: "bitlen 1 = 1"
  by (simp add: compute_bitlen)

lemma pow2_nonneg: "0 \<le> e \<Longrightarrow> pow2 e = 2 ^ nat e"
  by (simp add: pow2_def)

lemma ilog2_of_int:
  assumes "0 < v"
  shows "ilog2 (of_int v) = bitlen v - 1"
proof -
  from assms have b: "1 \<le> bitlen v" by (auto simp: bitlen_alt_def)
  from bitlen_bounds [OF assms] have "(2::int) ^ nat (bitlen v - 1) \<le> v" by simp
  then have "(of_int ((2::int) ^ nat (bitlen v - 1)) :: rat) \<le> of_int v"
    by (simp only: of_int_le_iff)
  then have "pow2 (bitlen v - 1) \<le> of_int v"
    using b by (simp add: pow2_def)
  then show ?thesis
    by (simp add: ilog2_def quotient_of_of_int bitlen_one)
qed

lemma roundHalfEven_of_int: "roundHalfEven (of_int k) = k"
  by (simp add: roundHalfEven_def)

lemma bitlen_le_53:
  assumes "0 < v" and "v < 2 ^ 53"
  shows "bitlen v \<le> 53"
proof (rule ccontr)
  assume "\<not> bitlen v \<le> 53"
  then have "54 \<le> bitlen v" by simp
  then have "(53::nat) \<le> nat (bitlen v - 1)" by simp
  then have "(2::int) ^ 53 \<le> 2 ^ nat (bitlen v - 1)"
    by (rule power_increasing) simp
  also from bitlen_bounds [OF assms(1)] have "\<dots> \<le> v" by simp
  finally show False using assms(2) by simp
qed

lemma toDouble_of_int:
  assumes "0 \<le> v" and "v < 2 ^ 53"
  shows "toDouble (of_int v) = Fin (of_int v)"
proof (cases "v = 0")
  case True
  then show ?thesis by (simp add: toDouble_def)
next
  case False
  with assms have pos: "0 < v" by simp
  define e where "e = bitlen v - 1"
  from pos have e0: "0 \<le> e" by (auto simp: e_def bitlen_alt_def)
  from bitlen_le_53 [OF pos assms(2)] have e52: "e \<le> 52" by (simp add: e_def)
  define n where "n = nat (52 - e)"
  have ulp: "pow2 (e - 52) = 1 / 2 ^ n"
    using e52 by (cases "e = 52") (simp_all add: pow2_def n_def)
  have quot: "(of_int v :: rat) / pow2 (e - 52) = of_int (v * 2 ^ n)"
    by (simp add: ulp)
  have regain: "(of_int (v * 2 ^ n) :: rat) * pow2 (e - 52) = of_int v"
    by (simp add: ulp)
  have il: "ilog2 (of_int v) = e" using ilog2_of_int [OF pos] by (simp add: e_def)
  have mx: "max e (- 1022) = e" using e0 by simp
  have ab: "\<bar>of_int v :: rat\<bar> = of_int v" using pos by simp
  show ?thesis
    unfolding toDouble_def Let_def ab il mx quot roundHalfEven_of_int regain
    using pos e52 by simp
qed

lemma intDigits_length:
  "0 < z \<Longrightarrow> 10 ^ (length (intDigits z) - 1) \<le> z"
proof (induction z rule: intDigits.induct)
  case (1 n)
  show ?case
  proof (cases "n < 10")
    case True
    with "1.prems" show ?thesis by (simp add: intDigits.simps [of n])
  next
    case False
    then have pos: "0 < n div 10" by simp
    from "1.IH" [OF False pos] have ih: "10 ^ (length (intDigits (n div 10)) - 1) \<le> n div 10" .
    have len: "length (intDigits n) - 1 = length (intDigits (n div 10))"
      using False by (simp add: intDigits.simps [of n])
    have ne: "intDigits (n div 10) \<noteq> []"
      by (simp add: intDigits.simps [of "n div 10"])
    then have "length (intDigits (n div 10)) = Suc (length (intDigits (n div 10)) - 1)"
      by (cases "intDigits (n div 10)") simp_all
    then have "(10::int) ^ length (intDigits (n div 10))
                 = 10 * 10 ^ (length (intDigits (n div 10)) - 1)"
      by (metis power_Suc)
    also have "\<dots> \<le> 10 * (n div 10)" using ih by simp
    also have "\<dots> \<le> n" by simp
    finally have "(10::int) ^ length (intDigits (n div 10)) \<le> n" .
    then show ?thesis unfolding len .
  qed
qed

lemma shortestDecimal_exact:
  assumes "0 < z" and "z < 2 ^ 52"
  shows "shortestDecimal z = z"
proof -
  define n where "n = length (intDigits z)"
  define pick where "pick = (\<lambda>k.
      let p = 10 ^ (n - k); lo = (z div p) * p; hi = lo + p
      in filter (\<lambda>v. toDouble (of_int v) = Fin (of_int z))
           (if z - lo < hi - z then [lo, hi]
            else if hi - z < z - lo then [hi, lo]
            else if even (z div p) then [lo, hi] else [hi, lo]))"
  have top: "(10::int) ^ (n - 1) \<le> z" using intDigits_length [OF assms(1)] by (simp add: n_def)
  have each: "v = z" if k: "k \<in> set [1..<Suc n]" and v: "v \<in> set (pick k)" for k v
  proof -
    define p :: int where "p = 10 ^ (n - k)"
    define lo where "lo = (z div p) * p"
    have ppos: "0 < p" by (simp add: p_def)
    from k have "n - k \<le> n - 1" by auto
    then have "p \<le> 10 ^ (n - 1)" unfolding p_def by (rule power_increasing) simp
    with top have pz: "p \<le> z" by simp
    have lo0: "0 \<le> lo" using assms(1) ppos by (simp add: lo_def pos_imp_zdiv_nonneg_iff)
    have loz: "lo \<le> z"
      unfolding lo_def using pos_mod_sign [OF ppos, of z] div_mult_mod_eq [of z p] by linarith
    from v have mem: "v = lo \<or> v = lo + p" and keep: "toDouble (of_int v) = Fin (of_int z)"
      by (auto simp: pick_def Let_def p_def lo_def split: if_splits)
    from mem lo0 loz pz ppos assms(2) have "0 \<le> v" "v < 2 ^ 53" by auto
    then have "toDouble (of_int v) = Fin (of_int v)" by (rule toDouble_of_int)
    with keep show "v = z" by simp
  qed
  have all: "v = z" if "v \<in> set (concat (map pick [1..<Suc n]))" for v
    using that each by auto
  have "shortestDecimal z = (case concat (map pick [1..<Suc n]) of [] \<Rightarrow> z | v # _ \<Rightarrow> v)"
    by (simp add: shortestDecimal_def n_def pick_def Let_def)
  also have "\<dots> = z"
  proof (cases "concat (map pick [1..<Suc n])")
    case Nil
    show ?thesis unfolding Nil by simp
  next
    case (Cons v vs)
    have "v \<in> set (concat (map pick [1..<Suc n]))" unfolding Cons by simp
    then have "v = z" by (rule all)
    then show ?thesis unfolding Cons by simp
  qed
  finally show ?thesis .
qed

lemma intToString_digits:
  assumes "0 < z" and "z < 2 ^ 52"
  shows "intToString (IFin z) = intDigits z"
proof -
  have "(10::int) ^ (length (intDigits z) - 1) \<le> z" using assms(1) by (rule intDigits_length)
  also have "z < (10::int) ^ 21" using assms(2) by simp
  finally have lt: "(10::int) ^ (length (intDigits z) - 1) < 10 ^ 21" .
  have "length (intDigits z) - 1 < 21"
    by (rule power_less_imp_less_exp [OF _ lt]) simp
  then have "length (intDigits z) \<le> 21" by simp
  then show ?thesis
    using assms by (simp add: posToString_def shortestDecimal_exact Let_def)
qed

lemma status_digits:
  assumes "100 \<le> status" and "status \<le> 999"
  shows "intToString (IFin status) =
     [char_of (48 + status div 100), char_of (48 + status div 10 mod 10),
      char_of (48 + status mod 10)]"
proof -
  have "intToString (IFin status) = intDigits status"
    using assms by (intro intToString_digits) simp_all
  also have "\<dots> = intDigits (status div 10) @ [char_of (48 + status mod 10)]"
    using assms by (simp add: intDigits.simps [of status])
  also have "intDigits (status div 10)
               = intDigits (status div 10 div 10) @ [char_of (48 + status div 10 mod 10)]"
  proof -
    from assms have "\<not> status div 10 < 10" by presburger
    then show ?thesis by (simp add: intDigits.simps [of "status div 10"])
  qed
  also have "intDigits (status div 10 div 10) = [char_of (48 + status div 100)]"
  proof -
    have "status div 10 div 10 = status div 100" by (simp add: zdiv_zmult2_eq)
    moreover from assms have "status div 100 < 10" by simp
    ultimately show ?thesis by (simp add: intDigits.simps [of "status div 100"])
  qed
  finally show ?thesis by simp
qed


section \<open>Transport errors\<close>

text \<open>
  Claim C4. When the fetch of a request fails, the controller's error becomes the
  message of the failure: the message of the thrown error when \<open>fetch\<close> (or the reading of
  the body) rejects with an \<open>Error\<close>, "Failed to fetch" when it rejects with anything
  else, and "HTTP " followed by the status when the status is not a success (the
  three digits of a status from 100 to 999). The message is not empty unless the
  thrown error's own message is. The snapshot is kept: the routes, the stop name and
  the time of the last update are as before. The loading and refreshing flags are
  off, and once the call that started the request has returned, no request is in
  flight: a call made when the gap has passed starts a new request.
\<close>

theorem transport_error_keeps_snapshot:
  "p \<in> set (fetching s)
   \<and> (out = FetchRejected (ErrorObject message) \<and> shown = message
        \<or> out = FetchRejected NotAnError \<and> shown = ''Failed to fetch''
        \<or> out = Response status body \<and> \<not> ok status
            \<and> shown = ''HTTP '' @ intToString (IFin status)
        \<or> out = Response status (Inl (ErrorObject message)) \<and> ok status \<and> shown = message
        \<or> out = Response status (Inl NotAnError) \<and> ok status \<and> shown = ''Failed to fetch'')
   \<longrightarrow> (\<exists>s'. step cfg (Settle p out now) s = Some s'
          \<and> snapshot s' = snapshot s
          \<and> lastUpdated s' = lastUpdated s
          \<and> error s' = Some shown
          \<and> (message \<noteq> [] \<longrightarrow> shown \<noteq> [])
          \<and> (out = Response status body \<and> \<not> ok status \<and> 100 \<le> status \<and> status \<le> 999
               \<longrightarrow> error s' =
                     Some (''HTTP '' @ [char_of (48 + status div 100),
                                         char_of (48 + status div 10 mod 10),
                                         char_of (48 + status mod 10)]))
          \<and> \<not> loading s' \<and> \<not> isRefreshing s'
          \<and> (\<exists>s''. step cfg (Release p) s' = Some s''
                \<and> snapshot s'' = snapshot s
                \<and> error s'' = Some shown
                \<and> inFlightRequest s'' = None
                \<and> \<not> isRefreshing s''
                \<and> (\<not> falsy (stopCode cfg) \<and> MIN_REQUEST_GAP_MS cfg \<le> t - lastRequestAt s''
                     \<longrightarrow> fst (fetchBusData cfg t s'') = Started (fetchCount s''))))"
proof (intro impI, elim conjE)
  assume p: "p \<in> set (fetching s)"
    and failure:
      "out = FetchRejected (ErrorObject message) \<and> shown = message
        \<or> out = FetchRejected NotAnError \<and> shown = ''Failed to fetch''
        \<or> out = Response status body \<and> \<not> ok status
            \<and> shown = ''HTTP '' @ intToString (IFin status)
        \<or> out = Response status (Inl (ErrorObject message)) \<and> ok status \<and> shown = message
        \<or> out = Response status (Inl NotAnError) \<and> ok status \<and> shown = ''Failed to fetch''"
  define s1 where "s1 = (requestSettled cfg out now s)
                   \<lparr>fetching := removeAll p (fetching s), awaiting := awaiting s @ [p]\<rparr>"
  define s2 where "s2 = s1\<lparr>inFlightRequest := None, awaiting := removeAll p (awaiting s1)\<rparr>"
  have st1: "step cfg (Settle p out now) s = Some s1" using p by (simp add: s1_def)
  have keep: "snapshot s1 = snapshot s \<and> lastUpdated s1 = lastUpdated s
              \<and> error s1 = Some shown \<and> \<not> loading s1 \<and> \<not> isRefreshing s1"
    using failure unfolding s1_def
    by (auto simp: requestSettled_def Let_def)
  have filled: "shown \<noteq> []" if "message \<noteq> []"
    using failure that by auto
  have digits: "error s1 =
      Some (''HTTP '' @ [char_of (48 + status div 100),
                          char_of (48 + status div 10 mod 10),
                          char_of (48 + status mod 10)])"
    if "out = Response status body" "\<not> ok status" "100 \<le> status" "status \<le> 999"
  proof -
    from failure that(1,2) have "shown = ''HTTP '' @ intToString (IFin status)" by auto
    with keep status_digits [OF that(3,4)] show ?thesis by simp
  qed
  have st2: "step cfg (Release p) s1 = Some s2" by (simp add: s1_def s2_def)
  have idle: "snapshot s2 = snapshot s \<and> error s2 = Some shown
              \<and> inFlightRequest s2 = None \<and> \<not> isRefreshing s2"
    using keep by (simp add: s2_def)
  have again: "fst (fetchBusData cfg t s2) = Started (fetchCount s2)"
    if "\<not> falsy (stopCode cfg)" "MIN_REQUEST_GAP_MS cfg \<le> t - lastRequestAt s2"
    using that idle by (simp add: fetchBusData_def Let_def)
  from st1 keep filled digits st2 idle again
  show "\<exists>s'. step cfg (Settle p out now) s = Some s'
          \<and> snapshot s' = snapshot s
          \<and> lastUpdated s' = lastUpdated s
          \<and> error s' = Some shown
          \<and> (message \<noteq> [] \<longrightarrow> shown \<noteq> [])
          \<and> (out = Response status body \<and> \<not> ok status \<and> 100 \<le> status \<and> status \<le> 999
               \<longrightarrow> error s' =
                     Some (''HTTP '' @ [char_of (48 + status div 100),
                                         char_of (48 + status div 10 mod 10),
                                         char_of (48 + status mod 10)]))
          \<and> \<not> loading s' \<and> \<not> isRefreshing s'
          \<and> (\<exists>s''. step cfg (Release p) s' = Some s''
                \<and> snapshot s'' = snapshot s
                \<and> error s'' = Some shown
                \<and> inFlightRequest s'' = None
                \<and> \<not> isRefreshing s''
                \<and> (\<not> falsy (stopCode cfg) \<and> MIN_REQUEST_GAP_MS cfg \<le> t - lastRequestAt s''
                     \<longrightarrow> fst (fetchBusData cfg t s'') = Started (fetchCount s'')))"
    by blast
qed

theorem transport_error_keeps_snapshot_witness:
  "0 \<in> set (fetching waitingState)
   \<and> \<not> ok 503
   \<and> step sampleConfig (Settle 0 (Response 503 (Inr ''Service Unavailable'')) 100400) waitingState
       = Some failedState
   \<and> snapshot failedState = snapshot waitingState
   \<and> lastUpdated failedState = lastUpdated waitingState
   \<and> error failedState = Some ''HTTP 503''
   \<and> step sampleConfig (Release 0) failedState = Some releasedState
   \<and> inFlightRequest releasedState = None
   \<and> snapshot releasedState = snapshot waitingState
   \<and> error releasedState = Some ''HTTP 503''
   \<and> \<not> falsy (stopCode sampleConfig)
   \<and> MIN_REQUEST_GAP_MS sampleConfig \<le> 105000 - lastRequestAt releasedState
   \<and> fst (fetchBusData sampleConfig 105000 releasedState) = Started 1
   \<and> map_option error
         (step sampleConfig (Settle 0 (FetchRejected (ErrorObject ''Load failed'')) 100400)
            waitingState) = Some (Some ''Load failed'')
   \<and> map_option error
         (step sampleConfig (Settle 0 (FetchRejected NotAnError) 100400) waitingState)
         = Some (Some ''Failed to fetch'')"
proof -
  have a: "0 \<in> set (fetching waitingState)" by code_simp
  have b: "\<not> ok 503" by code_simp
  have c: "\<not> falsy (stopCode sampleConfig)" by code_simp
  have g: "MIN_REQUEST_GAP_MS sampleConfig = 5000" by code_simp
  have d: "[char_of (48 + (503::int) div 100), char_of (48 + (503::int) div 10 mod 10),
            char_of (48 + (503::int) mod 10)] = ''503''" by code_simp
  have range: "(100::int) \<le> 503 \<and> (503::int) \<le> 999" by simp
  from transport_error_keeps_snapshot
         [of 0 waitingState "Response 503 (Inr ''Service Unavailable'')" "[]"
             "''HTTP '' @ intToString (IFin 503)" 503 "Inr ''Service Unavailable''"
             sampleConfig 100400 105000]
       a b
  obtain s' s'' where
    s': "step sampleConfig (Settle 0 (Response 503 (Inr ''Service Unavailable'')) 100400) waitingState
           = Some s'"
      "snapshot s' = snapshot waitingState"
      "lastUpdated s' = lastUpdated waitingState"
      "error s' = Some (''HTTP '' @ intToString (IFin 503))"
      "Response 503 (Inr ''Service Unavailable'') = Response 503 (Inr ''Service Unavailable'')
         \<and> \<not> ok 503 \<and> 100 \<le> (503::int) \<and> (503::int) \<le> 999
       \<longrightarrow> error s' =
             Some (''HTTP '' @ [char_of (48 + (503::int) div 100),
                                 char_of (48 + (503::int) div 10 mod 10),
                                 char_of (48 + (503::int) mod 10)])"
    and s'': "step sampleConfig (Release 0) s' = Some s''"
      "snapshot s'' = snapshot waitingState"
      "inFlightRequest s'' = None"
      "error s'' = Some (''HTTP '' @ intToString (IFin 503))"
      "\<not> falsy (stopCode sampleConfig) \<and> MIN_REQUEST_GAP_MS sampleConfig \<le> 105000 - lastRequestAt s''
         \<longrightarrow> fst (fetchBusData sampleConfig 105000 s'') = Started (fetchCount s'')"
    by blast
  have f1: "failedState = s'" by (simp only: failedState_def s'(1) option.sel)
  have f2: "releasedState = s''" by (simp only: releasedState_def f1 s''(1) option.sel)
  from s'(5) b range have "error s' =
             Some (''HTTP '' @ [char_of (48 + (503::int) div 100),
                                 char_of (48 + (503::int) div 10 mod 10),
                                 char_of (48 + (503::int) mod 10)])"
    by blast
  then have e1: "error s' = Some ''HTTP 503''" by (simp only: d append.simps)
  with s'(4) s''(4) have e2: "error s'' = Some ''HTTP 503''" by simp
  have t: "lastRequestAt releasedState = 100000" by code_simp
  have n: "fetchCount releasedState = 1" by code_simp
  from t g have gap: "MIN_REQUEST_GAP_MS sampleConfig \<le> 105000 - lastRequestAt releasedState"
    by simp
  from s''(5) c gap f2 n have again: "fst (fetchBusData sampleConfig 105000 releasedState) = Started 1"
    by simp
  from transport_error_keeps_snapshot
         [of 0 waitingState "FetchRejected (ErrorObject ''Load failed'')" "''Load failed''"
             "''Load failed''" 0 "Inr []" sampleConfig 100400 0] a
  obtain u where u: "step sampleConfig (Settle 0 (FetchRejected (ErrorObject ''Load failed'')) 100400)
            waitingState = Some u" "error u = Some ''Load failed''"
    by blast
  from transport_error_keeps_snapshot
         [of 0 waitingState "FetchRejected NotAnError" "[]" "''Failed to fetch''" 0 "Inr []"
             sampleConfig 100400 0] a
  obtain w where w: "step sampleConfig (Settle 0 (FetchRejected NotAnError) 100400) waitingState
           = Some w" "error w = Some ''Failed to fetch''"
    by blast
  have m1: "map_option error
         (step sampleConfig (Settle 0 (FetchRejected (ErrorObject ''Load failed'')) 100400)
            waitingState) = Some (Some ''Load failed'')"
    by (simp only: u option.map)
  have m2: "map_option error
         (step sampleConfig (Settle 0 (FetchRejected NotAnError) 100400) waitingState)
         = Some (Some ''Failed to fetch'')"
    by (simp only: w option.map)
  from a b c s'(1,2,3) s''(1,2,3) e1 e2 f1 f2 gap again m1 m2 show ?thesis by simp
qed

end
